theory Spec2Isabelle
  imports Main "HOL-Library.Sublist"
begin

section \<open>Python strings and POSIX paths used by the converter\<close>

text \<open>
  The converter works on Python \<open>str\<close> values through \<open>str.startswith\<close>,
  \<open>str.replace\<close> and the functions of \<open>os.path\<close> (\<open>posixpath\<close> on a POSIX
  system, which is what is modelled here). A string is a \<open>char list\<close>.
\<close>

definition py_startswith :: "string \<Rightarrow> string \<Rightarrow> bool" where
  \<comment> \<open>\<open>s.startswith(p)\<close>\<close>
  "py_startswith s p = (take (length p) s = p)"

definition py_endswith :: "string \<Rightarrow> string \<Rightarrow> bool" where
  \<comment> \<open>\<open>s.endswith(p)\<close>\<close>
  "py_endswith s p = (drop (length s - length p) s = p)"

function py_replace :: "string \<Rightarrow> string \<Rightarrow> string \<Rightarrow> string" where
  \<comment> \<open>\<open>s.replace(old, new)\<close>: the non-overlapping occurrences of \<open>old\<close>, from the left\<close>
  "py_replace [] old new = (if old = [] then new else [])"
| "py_replace (c # cs) old new =
     (if old = [] then new @ c # py_replace cs old new
      else if py_startswith (c # cs) old
        then new @ py_replace (drop (length old) (c # cs)) old new
        else c # py_replace cs old new)"
  by pat_completeness auto
termination
  by (relation "measure (\<lambda>(s, old, new). length s)") auto

definition after_last :: "char \<Rightarrow> string \<Rightarrow> nat" where
  \<comment> \<open>\<open>p.rfind(c) + 1\<close>: the index after the last \<open>c\<close>, 0 when there is none\<close>
  "after_last c p = length p - length (takeWhile (\<lambda>x. x \<noteq> c) (rev p))"

definition rstrip_sep :: "string \<Rightarrow> string" where
  \<comment> \<open>\<open>s.rstrip('/')\<close>\<close>
  "rstrip_sep s = rev (dropWhile (\<lambda>x. x = CHR ''/'') (rev s))"

definition isabs :: "string \<Rightarrow> bool" where
  "isabs s = py_startswith s ''/''"

definition dirname :: "string \<Rightarrow> string" where
  "dirname p =
     (let i = after_last CHR ''/'' p; head = take i p in
      if head = [] then head
      else if head = replicate (length head) CHR ''/'' then head
      else rstrip_sep head)"

definition basename :: "string \<Rightarrow> string" where
  "basename p = drop (after_last CHR ''/'' p) p"

definition splitext :: "string \<Rightarrow> string \<times> string" where
  \<comment> \<open>\<open>genericpath._splitext\<close>: the extension starts at the last dot of the last
      component, unless only dots precede it there\<close>
  "splitext p =
     (let sepIndex1 = after_last CHR ''/'' p; dotIndex1 = after_last CHR ''.'' p in
      if sepIndex1 < dotIndex1 then
        (if filter (\<lambda>x. x \<noteq> CHR ''.'') (drop sepIndex1 (take (dotIndex1 - 1) p)) = []
         then (p, [])
         else (take (dotIndex1 - 1) p, drop (dotIndex1 - 1) p))
      else (p, []))"

definition join :: "string \<Rightarrow> string \<Rightarrow> string" where
  \<comment> \<open>\<open>os.path.join(a, b)\<close> with two arguments\<close>
  "join a b =
     (if py_startswith b ''/'' then b
      else if a = [] then a @ b
      else if py_endswith a ''/'' then a @ b
      else a @ ''/'' @ b)"

fun split_sep :: "string \<Rightarrow> string list" where
  \<comment> \<open>\<open>s.split('/')\<close>\<close>
  "split_sep [] = [[]]"
| "split_sep (c # cs) =
     (if c = CHR ''/'' then [] # split_sep cs
      else (case split_sep cs of [] \<Rightarrow> [[c]] | x # xs \<Rightarrow> (c # x) # xs))"

fun join_sep :: "string list \<Rightarrow> string" where
  \<comment> \<open>\<open>'/'.join(comps)\<close>\<close>
  "join_sep [] = []"
| "join_sep [x] = x"
| "join_sep (x # y # ys) = x @ ''/'' @ join_sep (y # ys)"

fun norm_comps :: "nat \<Rightarrow> string list \<Rightarrow> string list \<Rightarrow> string list" where
  \<comment> \<open>the loop of \<open>normpath\<close> over the components; \<open>new_comps\<close> is the accumulator\<close>
  "norm_comps initial_slashes [] new_comps = new_comps"
| "norm_comps initial_slashes (part # comps) new_comps =
     (if part = [] then norm_comps initial_slashes comps new_comps
      else if part = ''.'' then norm_comps initial_slashes comps new_comps
      else if part = ''..'' then
        (if initial_slashes = 0 \<and> new_comps = []
           then norm_comps initial_slashes comps (new_comps @ [part])
         else if new_comps = [] then norm_comps initial_slashes comps new_comps
         else if last new_comps = ''..''
           then norm_comps initial_slashes comps (new_comps @ [part])
         else norm_comps initial_slashes comps (butlast new_comps))
      else norm_comps initial_slashes comps (new_comps @ [part]))"

definition normpath :: "string \<Rightarrow> string" where
  "normpath path =
     (if path = [] then ''.''
      else
        (let initial_slashes =
               (if py_startswith path ''/'' then
                  (if py_startswith path ''//'' then
                     (if py_startswith path ''///'' then (1::nat) else 2)
                   else 1)
                else 0);
             comps = norm_comps initial_slashes (split_sep path) [];
             path' = replicate initial_slashes CHR ''/'' @ join_sep comps
         in if path' = [] then ''.'' else path'))"

definition abspath :: "string \<Rightarrow> string \<Rightarrow> string" where
  \<comment> \<open>\<open>os.path.abspath\<close>, with the working directory \<open>os.getcwd()\<close> as a parameter\<close>
  "abspath cwd path = normpath (if isabs path then path else join cwd path)"

fun commonprefix :: "'a list \<Rightarrow> 'a list \<Rightarrow> 'a list" where
  "commonprefix (x # xs) (y # ys) = (if x = y then x # commonprefix xs ys else [])"
| "commonprefix xs ys = []"

datatype exn = Exn (exn_class: string) (exn_message: string)

definition relpath :: "string \<Rightarrow> string \<Rightarrow> string \<Rightarrow> exn + string" where
  \<comment> \<open>\<open>os.path.relpath(path, start)\<close>\<close>
  "relpath cwd path start =
     (if path = [] then Inl (Exn ''ValueError'' ''no path specified'')
      else
        (let start_list = filter (\<lambda>x. x \<noteq> []) (split_sep (abspath cwd start));
             path_list = filter (\<lambda>x. x \<noteq> []) (split_sep (abspath cwd path));
             i = length (commonprefix start_list path_list);
             rel_list = replicate (length start_list - i) ''..'' @ drop i path_list
         in if rel_list = [] then Inr ''.'' else Inr (join_sep rel_list)))"

subsection \<open>Timestamps\<close>

record datetime =
  dt_year :: nat
  dt_month :: nat
  dt_day :: nat
  dt_hour :: nat
  dt_minute :: nat
  dt_second :: nat

definition digit :: "nat \<Rightarrow> char" where
  "digit n = ''0123456789'' ! (n mod 10)"

definition show2 :: "nat \<Rightarrow> string" where
  "show2 n = [digit (n div 10), digit n]"

definition show4 :: "nat \<Rightarrow> string" where
  "show4 n = [digit (n div 1000), digit (n div 100), digit (n div 10), digit n]"

definition strftime :: "datetime \<Rightarrow> string" where
  \<comment> \<open>\<open>dt.strftime("%Y%m%d_%H%M%S")\<close>\<close>
  "strftime dt =
     show4 (dt_year dt) @ show2 (dt_month dt) @ show2 (dt_day dt) @ ''_'' @
     show2 (dt_hour dt) @ show2 (dt_minute dt) @ show2 (dt_second dt)"

fun str_nat :: "nat \<Rightarrow> string" where
  \<comment> \<open>\<open>str(n)\<close> for a non-negative integer\<close>
  "str_nat n = (if n < 10 then [digit n] else str_nat (n div 10) @ [digit n])"

declare str_nat.simps [simp del]

section \<open>The collaborators: decoded images, the file system, the clock\<close>

text \<open>
  \<open>ImageConverter.convert_image\<close> calls Pillow (\<open>Image.open\<close>, \<open>getexif\<close>,
  \<open>Image.new\<close>, \<open>split\<close>, \<open>paste\<close>, \<open>convert\<close>, \<open>save\<close>), \<open>os.makedirs\<close> and
  \<open>datetime.now\<close>. What these return or raise is not decided by the converter, so it
  is a parameter: the record \<open>world\<close> holds, for every call, the value it returns or
  the exception it raises, together with the state the converter changes (the
  directories that exist, the files written) and the sequence of its outward effects.
  An exception is a value \<open>Exn class message\<close>; \<open>str(e)\<close> is \<open>exn_message e\<close>.
\<close>

type_synonym band = "nat list"

type_synonym exif = "(nat \<times> string) list"

record image =
  im_mode :: string
  im_size :: "nat \<times> nat"
  im_bands :: "band list"
  im_exif :: "exn + exif"  \<comment> \<open>what \<open>getexif()\<close> returns, or the exception it raises\<close>

definition getbands :: "string \<Rightarrow> string list" where
  \<comment> \<open>Pillow's band names of the 8-bit modes\<close>
  "getbands m =
     (if m = ''1'' then [''1''] else if m = ''L'' then [''L'']
      else if m = ''P'' then [''P'']
      else if m = ''LA'' then [''L'', ''A'']
      else if m = ''PA'' then [''P'', ''A'']
      else if m = ''RGB'' then [''R'', ''G'', ''B'']
      else if m = ''RGBA'' then [''R'', ''G'', ''B'', ''A'']
      else if m = ''CMYK'' then [''C'', ''M'', ''Y'', ''K'']
      else if m = ''YCbCr'' then [''Y'', ''Cb'', ''Cr'']
      else [])"

definition has_alpha :: "image \<Rightarrow> bool" where
  "has_alpha im = (''A'' \<in> set (getbands (im_mode im)))"

definition wf_image :: "image \<Rightarrow> bool" where
  \<comment> \<open>one band per band name of the mode, one value in 0..255 per pixel\<close>
  "wf_image im =
     (getbands (im_mode im) \<noteq> [] \<and>
      length (im_bands im) = length (getbands (im_mode im)) \<and>
      list_all (\<lambda>b. length b = fst (im_size im) * snd (im_size im) \<and>
                    list_all (\<lambda>v. v \<le> 255) b) (im_bands im))"

datatype effect = MakeDirs string | Save string

record saved =
  sv_image :: image
  sv_quality :: int
  sv_exif :: "exif option"

record world =
  cwd :: string                                   \<comment> \<open>\<open>os.getcwd()\<close>\<close>
  now :: datetime                                 \<comment> \<open>\<open>datetime.now()\<close>\<close>
  image_at :: "string \<Rightarrow> exn + image"              \<comment> \<open>\<open>Image.open(path)\<close>\<close>
  paste_result :: "image \<Rightarrow> image \<Rightarrow> band \<Rightarrow> exn + band list"
  convert_result :: "image \<Rightarrow> string \<Rightarrow> exn + band list"
  makedirs_error :: "string \<Rightarrow> exn option"
  save_error :: "string \<Rightarrow> exn option"
  dirs :: "string set"
  files :: "string \<Rightarrow> saved option"
  effects :: "effect list"

definition os_makedirs :: "world \<Rightarrow> string \<Rightarrow> bool \<Rightarrow> exn + world" where
  \<comment> \<open>\<open>os.makedirs(name, exist_ok=...)\<close>\<close>
  "os_makedirs w name exist_ok =
     (case makedirs_error w name of
        Some e \<Rightarrow> Inl e
      | None \<Rightarrow>
          (if name \<in> dirs w then
             (if exist_ok then Inr (w\<lparr>effects := effects w @ [MakeDirs name]\<rparr>)
              else Inl (Exn ''FileExistsError'' (''[Errno 17] File exists: '' @ name)))
           else Inr (w\<lparr>dirs := insert name (dirs w),
                       effects := effects w @ [MakeDirs name]\<rparr>)))"

definition Image_open :: "world \<Rightarrow> string \<Rightarrow> exn + image" where
  "Image_open w path = image_at w path"

definition getexif :: "image \<Rightarrow> exn + exif" where
  "getexif im = im_exif im"

definition Image_new :: "string \<Rightarrow> nat \<times> nat \<Rightarrow> nat list \<Rightarrow> image" where
  \<comment> \<open>\<open>Image.new(mode, size, color)\<close>: every pixel has the given colour\<close>
  "Image_new m sz color =
     \<lparr>im_mode = m, im_size = sz,
      im_bands = map (\<lambda>c. replicate (fst sz * snd sz) c) color,
      im_exif = Inr []\<rparr>"

definition split :: "image \<Rightarrow> band list" where
  \<comment> \<open>\<open>im.split()\<close>: the tuple of the image's bands\<close>
  "split im = im_bands im"

definition tuple_index :: "'a list \<Rightarrow> nat \<Rightarrow> exn + 'a" where
  \<comment> \<open>\<open>t[n]\<close> on a tuple, for a non-negative \<open>n\<close>\<close>
  "tuple_index t n =
     (if n < length t then Inr (t ! n)
      else Inl (Exn ''IndexError'' ''tuple index out of range''))"

definition paste :: "world \<Rightarrow> image \<Rightarrow> image \<Rightarrow> band \<Rightarrow> exn + image" where
  \<comment> \<open>\<open>background.paste(im, mask=mask)\<close>: the background keeps its mode and size
      and gets new pixel values\<close>
  "paste w background im mask_band =
     (case paste_result w background im mask_band of
        Inl e \<Rightarrow> Inl e
      | Inr px \<Rightarrow> Inr (background\<lparr>im_bands := px\<rparr>))"

definition convert :: "world \<Rightarrow> image \<Rightarrow> string \<Rightarrow> exn + image" where
  \<comment> \<open>\<open>im.convert(mode)\<close>: a new image of the given mode and the same size\<close>
  "convert w im m =
     (case convert_result w im m of
        Inl e \<Rightarrow> Inl e
      | Inr px \<Rightarrow> Inr (im\<lparr>im_mode := m, im_bands := px\<rparr>))"

definition Image_save ::
  "world \<Rightarrow> image \<Rightarrow> string \<Rightarrow> int \<Rightarrow> exif option \<Rightarrow> exn + world" where
  \<comment> \<open>\<open>final_image.save(path, 'JPEG', quality=..., exif=...)\<close>\<close>
  "Image_save w im path quality ex =
     (case save_error w path of
        Some e \<Rightarrow> Inl e
      | None \<Rightarrow>
          Inr (w\<lparr>files := (files w)(path \<mapsto> \<lparr>sv_image = im, sv_quality = quality,
                                              sv_exif = ex\<rparr>),
                 effects := effects w @ [Save path]\<rparr>))"

section \<open>\<open>ImageConverter.convert_image\<close>\<close>

definition resolve_output_dir ::
  "world \<Rightarrow> string \<Rightarrow> string \<Rightarrow> bool \<Rightarrow> (exn + string) \<times> world" where
  \<comment> \<open>lines 84-91: the directory the JPEG goes to\<close>
  "resolve_output_dir w heif_path output_dir preserve_structure =
     (if preserve_structure \<and> isabs heif_path then
        (let rel_path = dirname heif_path in
         if py_startswith rel_path output_dir then (Inr output_dir, w)
         else
           (case relpath (cwd w) (dirname heif_path) (dirname output_dir) of
              Inl e \<Rightarrow> (Inl e, w)
            | Inr rel_path \<Rightarrow>
                (let new_output_dir = join output_dir rel_path in
                 case os_makedirs w new_output_dir True of
                   Inl e \<Rightarrow> (Inl e, w)
                 | Inr w' \<Rightarrow> (Inr new_output_dir, w'))))
      else (Inr output_dir, w))"

definition output_name :: "datetime \<Rightarrow> string \<Rightarrow> string option \<Rightarrow> string" where
  \<comment> \<open>lines 94-103: the base name of the JPEG; \<open>if rename_pattern:\<close> is false for
      \<open>None\<close> and for the empty string\<close>
  "output_name t heif_path rename_pattern =
     (let filename = basename heif_path;
          name = fst (splitext filename)
      in case rename_pattern of
           None \<Rightarrow> name
         | Some pat \<Rightarrow>
             (if pat = [] then name
              else
                (let timestamp = strftime t;
                     counter = (1::nat)
                 in py_replace
                      (py_replace (py_replace pat ''{name}'' name) ''{timestamp}'' timestamp)
                      ''{counter}'' (str_nat counter))))"

definition to_rgb :: "world \<Rightarrow> image \<Rightarrow> exn + image" where
  \<comment> \<open>lines 119-124\<close>
  "to_rgb w heif_image =
     (if im_mode heif_image = ''RGBA'' \<or> im_mode heif_image = ''LA'' then
        (let background = Image_new ''RGB'' (im_size heif_image) [255, 255, 255] in
         case tuple_index (split heif_image) 3 of
           Inl e \<Rightarrow> Inl e
         | Inr mask_band \<Rightarrow> paste w background heif_image mask_band)
      else convert w heif_image ''RGB'')"

definition read_exif :: "bool \<Rightarrow> image \<Rightarrow> exif option" where
  \<comment> \<open>lines 111-116: \<open>None\<close> unless \<open>keep_exif\<close>; an exception of \<open>getexif\<close> is
      logged as a warning and leaves \<open>None\<close>\<close>
  "read_exif keep_exif heif_image =
     (if keep_exif then
        (case getexif heif_image of Inl e \<Rightarrow> None | Inr x \<Rightarrow> Some x)
      else None)"

definition exif_to_save :: "bool \<Rightarrow> exif option \<Rightarrow> exif option" where
  \<comment> \<open>lines 127-130: \<open>exif_data and keep_exif\<close>; an empty Exif mapping is false\<close>
  "exif_to_save keep_exif exif_data =
     (case exif_data of
        None \<Rightarrow> None
      | Some x \<Rightarrow> (if x = [] then None else if keep_exif then Some x else None))"

definition convert_body ::
  "world \<Rightarrow> string \<Rightarrow> string \<Rightarrow> int \<Rightarrow> bool \<Rightarrow> bool \<Rightarrow> string option
     \<Rightarrow> (exn + string) \<times> world" where
  \<comment> \<open>the body of the \<open>try\<close>, lines 83-132: \<open>Inl e\<close> when it raises \<open>e\<close>\<close>
  "convert_body w heif_path output_dir quality preserve_structure keep_exif rename_pattern =
     (case resolve_output_dir w heif_path output_dir preserve_structure of
        (Inl e, w1) \<Rightarrow> (Inl e, w1)
      | (Inr output_dir', w1) \<Rightarrow>
          (let name = output_name (now w1) heif_path rename_pattern;
               jpeg_path = join output_dir' (name @ ''.jpg'')
           in case Image_open w1 heif_path of
                Inl e \<Rightarrow> (Inl e, w1)
              | Inr heif_image \<Rightarrow>
                  (let exif_data = read_exif keep_exif heif_image in
                   case to_rgb w1 heif_image of
                     Inl e \<Rightarrow> (Inl e, w1)
                   | Inr final_image \<Rightarrow>
                       (case Image_save w1 final_image jpeg_path quality
                               (exif_to_save keep_exif exif_data) of
                          Inl e \<Rightarrow> (Inl e, w1)
                        | Inr w2 \<Rightarrow> (Inr jpeg_path, w2)))))"

definition convert_image ::
  "world \<Rightarrow> string \<Rightarrow> string \<Rightarrow> int \<Rightarrow> bool \<Rightarrow> bool \<Rightarrow> string option
     \<Rightarrow> (bool \<times> string) \<times> world" where
  \<comment> \<open>lines 78-136: \<open>try: ... return True, jpeg_path
      except Exception as e: ... return False, str(e)\<close>\<close>
  "convert_image w heif_path output_dir quality preserve_structure keep_exif rename_pattern =
     (case convert_body w heif_path output_dir quality preserve_structure keep_exif
             rename_pattern of
        (Inl e, w') \<Rightarrow> ((False, exn_message e), w')
      | (Inr jpeg_path, w') \<Rightarrow> ((True, jpeg_path), w'))"

section \<open>\<open>ImageConverter.find_heif_files\<close>\<close>













text \<open>
  The reading of "the source directory is under the output root" as directories:
  the components of the root's absolute path begin those of the source directory's.
\<close>

definition path_components :: "string \<Rightarrow> string \<Rightarrow> string list" where
  "path_components wd p = filter (\<lambda>x. x \<noteq> []) (split_sep (abspath wd p))"

definition under_dir :: "string \<Rightarrow> string \<Rightarrow> string \<Rightarrow> bool" where
  "under_dir wd d root = prefix (path_components wd root) (path_components wd d)"

definition join_prefix :: "string \<Rightarrow> string" where
  \<comment> \<open>what \<open>os.path.join(d, b)\<close> puts before a \<open>b\<close> that has no slash\<close>
  "join_prefix d = (if d = [] then [] else if py_endswith d ''/'' then d else d @ ''/'')"


text \<open>
  A \<open>plain_name\<close> is a path component that names an entry: not empty, without a
  slash, neither \<open>.\<close> nor \<open>..\<close>. \<open>absolute\<close> is the argument \<open>abspath\<close> gives to
  \<open>normpath\<close>, and \<open>rel_string\<close> is how \<open>relpath\<close> writes a list of components.
\<close>

definition plain_name :: "string \<Rightarrow> bool" where
  "plain_name x = (x \<noteq> [] \<and> CHR ''/'' \<notin> set x \<and> x \<noteq> ''.'' \<and> x \<noteq> ''..'')"

definition absolute :: "string \<Rightarrow> string \<Rightarrow> string" where
  "absolute wd p = (if isabs p then p else join wd p)"

definition rel_string :: "string list \<Rightarrow> string" where
  "rel_string R = (if R = [] then ''.'' else join_sep R)"


section \<open>The application: starting, running and cancelling a batch\<close>

text \<open>
  Of \<open>HEIFtoJPEGConverterApp\<close> the fields that the batch logic reads and writes
  are kept; the notifications shown are kept as a list of messages with their kind.
  The status line and the log file are not modelled.
\<close>

record app =
  conversion_running :: bool
  stop_requested :: bool            \<comment> \<open>\<open>self.converter.stop_requested\<close>\<close>
  file_list :: "string list"
  input_dir :: string
  output_dir :: string
  max_workers :: nat
  progress_maximum :: nat
  progress_value :: nat
  convert_btn :: "string \<times> string"   \<comment> \<open>state and text of the button\<close>
  notifications :: "(string \<times> string) list"
  threads_started :: nat

definition CustomNotification :: "string \<Rightarrow> string \<Rightarrow> app \<Rightarrow> app" where
  "CustomNotification msg kind a = a\<lparr>notifications := notifications a @ [(msg, kind)]\<rparr>"

definition os_path_exists :: "world \<Rightarrow> string \<Rightarrow> bool" where
  "os_path_exists w p =
     (if p \<in> dirs w then True else (case files w p of None \<Rightarrow> False | Some x \<Rightarrow> True))"

definition start_conversion :: "app \<Rightarrow> world \<Rightarrow> app \<times> world" where
  \<comment> \<open>lines 1116-1153; starting the thread is counted in \<open>threads_started\<close>\<close>
  "start_conversion a w =
     (if conversion_running a then
        (CustomNotification ''Conversion is already running!'' ''warning'' a, w)
      else if file_list a = [] then
        (CustomNotification ''No files to convert!'' ''error'' a, w)
      else
        (let a1 = (if output_dir a = [] then a\<lparr>output_dir := input_dir a\<rparr> else a);
             dir = output_dir a1;
             made = (if os_path_exists w dir then Inr w else os_makedirs w dir False)
         in case made of
              Inl e \<Rightarrow> (CustomNotification ''Failed to create output directory'' ''error'' a1, w)
            | Inr w1 \<Rightarrow>
                (CustomNotification
                   (''Starting conversion of '' @ str_nat (length (file_list a1)) @ '' files'')
                   ''info''
                   (a1\<lparr>conversion_running := True,
                       convert_btn := (''disabled'', ''Converting...''),
                       progress_maximum := length (file_list a1),
                       progress_value := 0,
                       stop_requested := False,
                       threads_started := threads_started a1 + 1\<rparr>), w1)))"

definition update_progress :: "nat \<Rightarrow> nat \<Rightarrow> string \<Rightarrow> app \<Rightarrow> app" where
  \<comment> \<open>lines 1211-1215, without the status line\<close>
  "update_progress current total_n current_file a = a\<lparr>progress_value := current\<rparr>"

definition conversion_complete :: "nat \<Rightarrow> nat \<Rightarrow> nat \<Rightarrow> app \<Rightarrow> app" where
  \<comment> \<open>lines 1217-1234\<close>
  "conversion_complete total_n success errors a =
     (let a1 = a\<lparr>conversion_running := False,
                 convert_btn := (''normal'', ''Convert Images'')\<rparr>
      in if stop_requested a1 then
           CustomNotification
             (''Conversion cancelled. Completed '' @ str_nat success @ '' out of '' @
              str_nat total_n @ '' files.'') ''warning'' a1
         else if errors = 0 then
           CustomNotification
             (''All '' @ str_nat success @ '' files converted successfully!'') ''success'' a1
         else
           CustomNotification
             (''Conversion complete with '' @ str_nat errors @
              '' errors. See log for details.'') ''warning'' a1)"

definition cancel_conversion :: "app \<Rightarrow> app" where
  \<comment> \<open>lines 1243-1251\<close>
  "cancel_conversion a =
     (if conversion_running a then
        CustomNotification ''Cancelling conversion...'' ''warning''
          (a\<lparr>stop_requested := True\<rparr>)
      else a)"

subsection \<open>\<open>conversion_thread\<close> and the thread pool\<close>

text \<open>
  \<open>conversion_thread\<close> submits every file to a \<open>ThreadPoolExecutor\<close> and then
  reads the futures in the order of submission. The worker threads, the main thread
  (which runs \<open>cancel_conversion\<close> and, at the end, \<open>conversion_complete\<close>) and the
  conversion thread run concurrently; a run is a sequence of events, each one step of
  one of them, and an event that is not enabled leaves the state as it is.
  Requests are numbered by their position in \<open>file_list\<close>; \<open>result_of j\<close> is what
  \<open>future.result()\<close> returns or raises for request \<open>j\<close>.

  The conversion thread is at one of these points: \<open>Harvesting\<close> at the head of the
  loop of line 1178, \<open>Awaiting\<close> inside \<open>future.result()\<close> of line 1187,
  \<open>Stopping\<close> inside \<open>executor.shutdown(wait=False, cancel_futures=True)\<close> of line
  1180, which takes the queued work items one by one and cancels them, \<open>Exited\<close> at
  the end of the \<open>with\<close> block, which waits for the workers, \<open>Joined\<close> when
  \<open>conversion_complete\<close> is scheduled, \<open>Finished\<close> when it has run.

  The model is of a run in which the pool is created (\<open>max_workers\<close> is at least
  one; otherwise line 1163 raises and \<open>conversion_error\<close> runs instead) and in
  which \<open>file_list\<close> is not changed between lines 1158 and 1175.
  \<open>update_progress\<close> is applied where it is scheduled, with the arguments it is
  given there.
\<close>

datatype phase = Harvesting | Awaiting | Stopping | Exited | Joined | Finished

datatype event = Worker_start | Worker_finish nat | Cancel | Thread_step | Complete

record sched =
  ui :: app
  total_files :: nat
  pending :: "nat list"      \<comment> \<open>the executor's work queue\<close>
  running :: "nat list"      \<comment> \<open>requests a worker is converting\<close>
  finished :: "nat list"     \<comment> \<open>requests whose conversion has returned\<close>
  cancelled :: "nat list"    \<comment> \<open>futures cancelled by the shutdown\<close>
  harvest_i :: nat           \<comment> \<open>the loop variable \<open>i\<close>\<close>
  success_count :: nat
  error_count :: nat
  phase :: phase
  progress :: "(nat \<times> nat \<times> nat \<times> nat) list"
     \<comment> \<open>for each call of \<open>update_progress\<close>: its arguments \<open>current\<close> and \<open>total\<close>,
         and the two counters at that moment\<close>
  summary :: "(nat \<times> nat \<times> nat \<times> bool) option"
     \<comment> \<open>the arguments of \<open>conversion_complete\<close> and the flag it reads\<close>

definition start_thread :: "app \<Rightarrow> sched" where
  \<comment> \<open>lines 1158-1175: the counters are zero and every file is submitted\<close>
  "start_thread a =
     \<lparr>ui = a, total_files = length (file_list a),
      pending = [0..<length (file_list a)], running = [], finished = [], cancelled = [],
      harvest_i = 0, success_count = 0, error_count = 0, phase = Harvesting,
      progress = [], summary = None\<rparr>"

definition record_result :: "(exn + bool \<times> string) \<Rightarrow> sched \<Rightarrow> sched" where
  \<comment> \<open>lines 1186-1201\<close>
  "record_result res s =
     (let s1 = (case res of
                  Inl e \<Rightarrow> s\<lparr>error_count := error_count s + 1\<rparr>
                | Inr (success, result) \<Rightarrow>
                    (if success then s\<lparr>success_count := success_count s + 1\<rparr>
                     else s\<lparr>error_count := error_count s + 1\<rparr>))
      in s1\<lparr>ui := update_progress (harvest_i s + 1) (total_files s)
                     (basename (file_list (ui s) ! harvest_i s)) (ui s),
            progress := progress s @
              [(harvest_i s + 1, total_files s, success_count s1, error_count s1)],
            harvest_i := harvest_i s + 1,
            phase := Harvesting\<rparr>)"

definition thread_step :: "(nat \<Rightarrow> exn + bool \<times> string) \<Rightarrow> sched \<Rightarrow> sched" where
  "thread_step result_of s =
     (case phase s of
        Harvesting \<Rightarrow>
          (if total_files s \<le> harvest_i s then s\<lparr>phase := Exited\<rparr>
           else if stop_requested (ui s) then s\<lparr>phase := Stopping\<rparr>
           else s\<lparr>phase := Awaiting\<rparr>)
      | Awaiting \<Rightarrow>
          (if harvest_i s \<in> set (finished s)
           then record_result (result_of (harvest_i s)) s else s)
      | Stopping \<Rightarrow>
          (case pending s of
             [] \<Rightarrow> s\<lparr>phase := Exited\<rparr>
           | j # rest \<Rightarrow> s\<lparr>pending := rest, cancelled := cancelled s @ [j]\<rparr>)
      | Exited \<Rightarrow>
          (if pending s = [] \<and> running s = [] then s\<lparr>phase := Joined\<rparr> else s)
      | Joined \<Rightarrow> s
      | Finished \<Rightarrow> s)"

definition step :: "(nat \<Rightarrow> exn + bool \<times> string) \<Rightarrow> event \<Rightarrow> sched \<Rightarrow> sched" where
  "step result_of ev s =
     (case ev of
        Worker_start \<Rightarrow>
          (case pending s of
             [] \<Rightarrow> s
           | j # rest \<Rightarrow>
               (if length (running s) < max_workers (ui s)
                then s\<lparr>pending := rest, running := running s @ [j]\<rparr> else s))
      | Worker_finish j \<Rightarrow>
          (if j \<in> set (running s)
           then s\<lparr>running := remove1 j (running s), finished := finished s @ [j]\<rparr>
           else s)
      | Cancel \<Rightarrow> s\<lparr>ui := cancel_conversion (ui s)\<rparr>
      | Thread_step \<Rightarrow> thread_step result_of s
      | Complete \<Rightarrow>
          (if phase s = Joined then
             s\<lparr>ui := conversion_complete (total_files s) (success_count s) (error_count s)
                       (ui s),
               summary := Some (total_files s, success_count s, error_count s,
                                stop_requested (ui s)),
               phase := Finished\<rparr>
           else s))"

fun run :: "(nat \<Rightarrow> exn + bool \<times> string) \<Rightarrow> event list \<Rightarrow> sched \<Rightarrow> sched" where
  "run result_of [] s = s"
| "run result_of (ev # evs) s = run result_of evs (step result_of ev s)"

definition started :: "sched \<Rightarrow> nat set" where
  \<comment> \<open>the requests that some worker has taken\<close>
  "started s = set (running s) \<union> set (finished s)"

definition stopped_by_cancel :: "sched \<Rightarrow> bool" where
  \<comment> \<open>the loop was left through the \<open>break\<close> of line 1181, after the shutdown\<close>
  "stopped_by_cancel s =
     (harvest_i s < total_files s \<and> (phase s = Exited \<or> phase s = Joined \<or> phase s = Finished))"

text \<open>
  What holds in every state that a run reaches: the two counters add up to the loop
  variable, every request is in exactly one of the four lists, the requests the loop
  has read are finished, and once the loop is left through \<open>break\<close> the queue is
  empty and the flag is set.
\<close>

definition inv_count :: "sched \<Rightarrow> bool" where
  "inv_count s =
     (success_count s + error_count s = harvest_i s \<and>
      harvest_i s \<le> total_files s \<and>
      (phase s = Awaiting \<longrightarrow> harvest_i s < total_files s) \<and>
      (phase s = Stopping \<longrightarrow> harvest_i s < total_files s \<and> stop_requested (ui s)))"

definition inv_progress :: "sched \<Rightarrow> bool" where
  "inv_progress s =
     list_all (\<lambda>(c, t, sc, ec). c = sc + ec \<and> c \<le> t \<and> t = total_files s) (progress s)"

definition inv_lists :: "sched \<Rightarrow> bool" where
  "inv_lists s =
     (distinct (pending s @ running s @ finished s @ cancelled s) \<and>
      set (pending s @ running s @ finished s @ cancelled s) = {0..<total_files s} \<and>
      (\<forall>j<harvest_i s. j \<in> set (finished s)))"

definition inv_stop :: "sched \<Rightarrow> bool" where
  "inv_stop s =
     ((phase s = Harvesting \<or> phase s = Awaiting \<longrightarrow> cancelled s = []) \<and>
      (stopped_by_cancel s \<longrightarrow> pending s = [] \<and> stop_requested (ui s)) \<and>
      (phase s = Joined \<or> phase s = Finished \<longrightarrow> pending s = [] \<and> running s = []))"

definition inv_final :: "sched \<Rightarrow> bool" where
  "inv_final s =
     ((conversion_running (ui s) \<longleftrightarrow> phase s \<noteq> Finished) \<and>
      (case summary s of
         None \<Rightarrow> phase s \<noteq> Finished
       | Some (t, sc, ec, c) \<Rightarrow>
           phase s = Finished \<and> t = total_files s \<and> sc = success_count s \<and>
           ec = error_count s \<and> c = stop_requested (ui s)))"

definition sched_inv :: "sched \<Rightarrow> bool" where
  "sched_inv s = (inv_count s \<and> inv_progress s \<and> inv_lists s \<and> inv_stop s \<and> inv_final s)"

section \<open>The rename pattern and the timestamp as the specification words them\<close>

text \<open>
  The specification describes the renaming as one substitution: every occurrence of a
  placeholder in the pattern is replaced, and nothing else is. \<open>substitute_all\<close> reads the
  pattern once from the left and never looks at the text it has put in;
  \<open>braces_are_placeholders\<close> holds for a pattern in which every opening brace begins one
  of the three placeholders. They are compared with the three chained \<open>replace\<close> calls
  of the code, which \<open>chained_replace\<close> names.
\<close>

definition chained_replace :: "string \<Rightarrow> string \<Rightarrow> string \<Rightarrow> string \<Rightarrow> string" where
  \<comment> \<open>lines 100-102: \<open>pattern.replace(..).replace(..).replace(..)\<close>\<close>
  "chained_replace pat name timestamp counter =
     py_replace (py_replace (py_replace pat ''{name}'' name) ''{timestamp}'' timestamp)
       ''{counter}'' counter"

function substitute_all :: "string \<Rightarrow> string \<Rightarrow> string \<Rightarrow> string \<Rightarrow> string" where
  "substitute_all [] name timestamp counter = []"
| "substitute_all (c # cs) name timestamp counter =
     (if py_startswith (c # cs) ''{name}''
        then name @ substitute_all (drop 6 (c # cs)) name timestamp counter
      else if py_startswith (c # cs) ''{timestamp}''
        then timestamp @ substitute_all (drop 11 (c # cs)) name timestamp counter
      else if py_startswith (c # cs) ''{counter}''
        then counter @ substitute_all (drop 9 (c # cs)) name timestamp counter
      else c # substitute_all cs name timestamp counter)"
  by pat_completeness auto
termination
  by (relation "measure (\<lambda>(s, n, t, c). length s)") auto

function braces_are_placeholders :: "string \<Rightarrow> bool" where
  "braces_are_placeholders [] = True"
| "braces_are_placeholders (c # cs) =
     (if py_startswith (c # cs) ''{name}'' then braces_are_placeholders (drop 6 (c # cs))
      else if py_startswith (c # cs) ''{timestamp}''
        then braces_are_placeholders (drop 11 (c # cs))
      else if py_startswith (c # cs) ''{counter}''
        then braces_are_placeholders (drop 9 (c # cs))
      else if c = CHR ''{'' then False
      else braces_are_placeholders cs)"
  by pat_completeness auto
termination
  by (relation "measure length") auto

text \<open>
  \<open>YYYYMMDD_HHMMSS\<close> is read back with \<open>decimal\<close>, the value of a string of decimal
  digits. \<open>valid_datetime\<close> holds for the values \<open>datetime.now()\<close> can have for which
  \<open>%Y\<close> has four digits: the year from 1000 to 9999, the other fields in their ranges.
\<close>

definition digit_val :: "char \<Rightarrow> nat" where
  "digit_val c = of_char c - 48"

definition decimal :: "string \<Rightarrow> nat" where
  "decimal s = foldl (\<lambda>n c. 10 * n + digit_val c) 0 s"

definition valid_datetime :: "datetime \<Rightarrow> bool" where
  "valid_datetime dt =
     (1000 \<le> dt_year dt \<and> dt_year dt \<le> 9999 \<and> 1 \<le> dt_month dt \<and> dt_month dt \<le> 12 \<and>
      1 \<le> dt_day dt \<and> dt_day dt \<le> 31 \<and> dt_hour dt < 24 \<and> dt_minute dt < 60 \<and>
      dt_second dt < 60)"

section \<open>Concrete inputs\<close>

definition example_now :: datetime where
  "example_now = \<lparr>dt_year = 2025, dt_month = 3, dt_day = 9,
                    dt_hour = 14, dt_minute = 5, dt_second = 0\<rparr>"

definition rgb_image :: image where
  "rgb_image = \<lparr>im_mode = ''RGB'', im_size = (1, 1),
                  im_bands = [[10], [20], [30]], im_exif = Inr [(271, ''Maker'')]\<rparr>"

definition rgba_image :: image where
  \<comment> \<open>one fully transparent pixel\<close>
  "rgba_image = \<lparr>im_mode = ''RGBA'', im_size = (1, 1),
                   im_bands = [[10], [20], [30], [0]], im_exif = Inr []\<rparr>"

definition la_image :: image where
  \<comment> \<open>a grey image with an alpha band: one fully transparent pixel\<close>
  "la_image = \<lparr>im_mode = ''LA'', im_size = (1, 1),
                 im_bands = [[128], [0]], im_exif = Inr []\<rparr>"

definition noexif_image :: image where
  \<comment> \<open>an image whose \<open>getexif()\<close> raises\<close>
  "noexif_image = \<lparr>im_mode = ''RGB'', im_size = (1, 1), im_bands = [[10], [20], [30]],
                     im_exif = Inl (Exn ''SyntaxError'' ''not a TIFF file'')\<rparr>"

definition example_world :: world where
  "example_world =
     \<lparr>cwd = ''/home/u'', now = example_now,
      image_at = (\<lambda>p. if p = ''/in/broken.heic''
                         then Inl (Exn ''UnidentifiedImageError'' ''cannot identify image file'')
                       else if p = ''/in/la.heic'' then Inr la_image
                       else if p = ''/in/rgba.heic'' then Inr rgba_image
                       else if p = ''/in/noexif.heic'' then Inr noexif_image
                       else Inr rgb_image),
      paste_result = (\<lambda>background im mask_band. Inr [[255], [255], [255]]),
      convert_result = (\<lambda>im m. Inr (take 3 (im_bands im))),
      makedirs_error = (\<lambda>p. None),
      save_error = (\<lambda>p. if p = ''/full/a.jpg''
                           then Some (Exn ''OSError'' ''[Errno 28] No space left on device'')
                         else None),
      dirs = {''/out'', ''/full''}, files = (\<lambda>p. None), effects = []\<rparr>"


definition running_app :: app where
  \<comment> \<open>the application after \<open>start_conversion\<close> on two files\<close>
  "running_app =
     \<lparr>conversion_running = True, stop_requested = False,
      file_list = [''/in/a.heic'', ''/in/b.heic''], input_dir = ''/in'', output_dir = ''/out'',
      max_workers = 2, progress_maximum = 2, progress_value = 0,
      convert_btn = (''disabled'', ''Converting...''), notifications = [],
      threads_started = 1\<rparr>"

definition example_results :: "nat \<Rightarrow> exn + bool \<times> string" where
  \<comment> \<open>the first file fails to decode, the others convert\<close>
  "example_results j =
     (if j = 0 then Inr (False, ''cannot identify image file'')
      else Inr (True, ''/out/b.jpg''))"

definition natural_events :: "event list" where
  \<comment> \<open>both files are converted, the second first, and both results are read\<close>
  "natural_events =
     [Worker_start, Worker_start, Worker_finish 1, Worker_finish 0,
      Thread_step, Thread_step, Thread_step, Thread_step, Thread_step, Thread_step,
      Complete]"

definition early_cancel_events :: "event list" where
  \<comment> \<open>the flag is set and the shutdown has emptied the queue before a worker starts\<close>
  "early_cancel_events = [Cancel, Thread_step, Thread_step, Thread_step, Thread_step]"

definition late_cancel_events :: "event list" where
  \<comment> \<open>both conversions are under way when the flag is set; both finish\<close>
  "late_cancel_events =
     [Worker_start, Worker_start, Cancel, Thread_step, Thread_step,
      Worker_finish 0, Worker_finish 1, Thread_step, Complete]"

section \<open>Properties of \<open>convert_image\<close>\<close>


lemmas path_defs = dirname_def basename_def splitext_def after_last_def rstrip_sep_def
  join_def isabs_def py_startswith_def py_endswith_def


lemma convert_image_Inr:
  "convert_body w p out q ps ke rp = (Inr jp, w') \<Longrightarrow>
   convert_image w p out q ps ke rp = ((True, jp), w')"
  by (simp add: convert_image_def)


lemma convert_body_to_rgb_fails:
  "resolve_output_dir w p out ps = (Inr d, w1) \<Longrightarrow> Image_open w1 p = Inr im \<Longrightarrow>
   to_rgb w1 im = Inl e \<Longrightarrow>
   convert_body w p out q ps ke rp = (Inl e, w1)"
  by (simp add: convert_body_def Let_def)

lemma convert_body_save:
  "resolve_output_dir w p out ps = (Inr d, w1) \<Longrightarrow> Image_open w1 p = Inr im \<Longrightarrow>
   to_rgb w1 im = Inr fin \<Longrightarrow>
   convert_body w p out q ps ke rp =
     (case Image_save w1 fin (join d (output_name (now w1) p rp @ ''.jpg'')) q
             (exif_to_save ke (read_exif ke im)) of
        Inl e \<Rightarrow> (Inl e, w1)
      | Inr w2 \<Rightarrow> (Inr (join d (output_name (now w1) p rp @ ''.jpg'')), w2))"
  by (simp add: convert_body_def Let_def)


lemma resolve_flat: "resolve_output_dir w p out False = (Inr out, w)"
  by (simp add: resolve_output_dir_def)


text \<open>
  Claim C10. The test of line 86 compares strings: the source directory \<open>/out2/sub\<close>
  begins with the string \<open>/out\<close> without being inside the directory \<open>/out\<close>; with
  \<open>preserve_structure\<close> set the resolver keeps the output root as it is, calls no
  \<open>os.makedirs\<close>, and the JPEG is written directly into \<open>/out\<close>.
\<close>

theorem prefix_test_is_string_comparison:
  "py_startswith (dirname ''/out2/sub/a.heic'') ''/out'' \<and>
   under_dir (cwd w) (dirname ''/out2/sub/a.heic'') ''/out'' = False \<and>
   resolve_output_dir w ''/out2/sub/a.heic'' ''/out'' True = (Inr ''/out'', w) \<and>
   fst (convert_image example_world ''/out2/sub/a.heic'' ''/out'' 90 True True None) =
     (True, ''/out/a.jpg'') \<and>
   effects (snd (convert_image example_world ''/out2/sub/a.heic'' ''/out'' 90 True True None)) =
     [Save ''/out/a.jpg''] \<and>
   dirs (snd (convert_image example_world ''/out2/sub/a.heic'' ''/out'' 90 True True None)) =
     dirs example_world"
proof -
  have d: "dirname ''/out2/sub/a.heic'' = ''/out2/sub''"
    by (simp add: path_defs Let_def)
  have p: "py_startswith ''/out2/sub'' ''/out''"
    by (simp add: py_startswith_def)
  have u: "under_dir (cwd w) ''/out2/sub'' ''/out'' = False"
    by (simp add: under_dir_def path_components_def abspath_def normpath_def path_defs Let_def)
  have r: "resolve_output_dir w ''/out2/sub/a.heic'' ''/out'' True = (Inr ''/out'', w)" for w
    by (simp add: resolve_output_dir_def d p Let_def)
  have o: "Image_open example_world ''/out2/sub/a.heic'' = Inr rgb_image"
    by (simp add: Image_open_def example_world_def)
  have t: "to_rgb example_world rgb_image = Inr (rgb_image\<lparr>im_bands := [[10], [20], [30]]\<rparr>)"
    by (simp add: to_rgb_def convert_def example_world_def rgb_image_def)
  have n: "join ''/out'' (output_name (now example_world) ''/out2/sub/a.heic'' None @ ''.jpg'') = ''/out/a.jpg''"
    by (simp add: output_name_def path_defs Let_def)
  have b: "convert_body example_world ''/out2/sub/a.heic'' ''/out'' 90 True True None =
      (Inr ''/out/a.jpg'', example_world\<lparr>files := (files example_world)(''/out/a.jpg'' \<mapsto>
          \<lparr>sv_image = rgb_image\<lparr>im_bands := [[10], [20], [30]]\<rparr>, sv_quality = 90,
           sv_exif = Some [(271, ''Maker'')]\<rparr>),
        effects := effects example_world @ [Save ''/out/a.jpg'']\<rparr>)"
    apply (simp add: convert_body_save [OF r o t] n)
    apply (simp add: Image_save_def exif_to_save_def read_exif_def getexif_def)
    apply (simp add: example_world_def rgb_image_def output_name_def path_defs Let_def)
    done
  have c: "convert_image example_world ''/out2/sub/a.heic'' ''/out'' 90 True True None =
      ((True, ''/out/a.jpg''), example_world\<lparr>files := (files example_world)(''/out/a.jpg'' \<mapsto>
          \<lparr>sv_image = rgb_image\<lparr>im_bands := [[10], [20], [30]]\<rparr>, sv_quality = 90,
           sv_exif = Some [(271, ''Maker'')]\<rparr>),
        effects := effects example_world @ [Save ''/out/a.jpg'']\<rparr>)"
    by (rule convert_image_Inr [OF b])
  show ?thesis
    by (simp add: d p u r c) (simp add: example_world_def)
qed

lemma to_rgb_LA:
  "im_mode im = ''LA'' \<Longrightarrow> length (im_bands im) = 2 \<Longrightarrow>
   to_rgb w im = Inl (Exn ''IndexError'' ''tuple index out of range'')"
  by (simp add: to_rgb_def tuple_index_def split_def Let_def)

lemma to_rgb_RGBA:
  "im_mode im = ''RGBA'' \<Longrightarrow> length (im_bands im) = 4 \<Longrightarrow>
   to_rgb w im = paste w (Image_new ''RGB'' (im_size im) [255, 255, 255]) im (im_bands im ! 3)"
  by (simp add: to_rgb_def tuple_index_def split_def Let_def)

text \<open>
  An image of mode \<open>RGBA\<close> takes the same branch and is pasted onto a white
  \<open>RGB\<close> background: the file saved has mode \<open>RGB\<close>, so no alpha band.
\<close>

lemma rgba_image_flattened:
  "fst (convert_image example_world ''/in/rgba.heic'' ''/out'' 90 False True None) =
     (True, ''/out/rgba.jpg'') \<and>
   map_option (\<lambda>f. im_mode (sv_image f))
     (files (snd (convert_image example_world ''/in/rgba.heic'' ''/out'' 90 False True None))
        ''/out/rgba.jpg'') = Some ''RGB''"
proof -
  have o: "Image_open example_world ''/in/rgba.heic'' = Inr rgba_image"
    by (simp add: Image_open_def example_world_def)
  have t: "to_rgb example_world rgba_image =
      Inr ((Image_new ''RGB'' (1, 1) [255, 255, 255])\<lparr>im_bands := [[255], [255], [255]]\<rparr>)"
    by (simp add: to_rgb_RGBA rgba_image_def paste_def example_world_def)
  have n: "join ''/out'' (output_name (now example_world) ''/in/rgba.heic'' None @ ''.jpg'') =
      ''/out/rgba.jpg''"
    by (simp add: output_name_def path_defs Let_def)
  have s: "save_error example_world
      (join ''/out'' (output_name (now example_world) ''/in/rgba.heic'' None @ ''.jpg'')) = None"
    by (simp only: n) (simp add: example_world_def)
  have b: "convert_body example_world ''/in/rgba.heic'' ''/out'' 90 False True None =
      (Inr ''/out/rgba.jpg'',
       example_world\<lparr>files := (files example_world)(''/out/rgba.jpg'' \<mapsto>
           \<lparr>sv_image = (Image_new ''RGB'' (1, 1) [255, 255, 255])
                          \<lparr>im_bands := [[255], [255], [255]]\<rparr>,
            sv_quality = 90,
            sv_exif = exif_to_save True (read_exif True rgba_image)\<rparr>),
         effects := effects example_world @ [Save ''/out/rgba.jpg'']\<rparr>)"
    using s by (simp add: convert_body_save [OF resolve_flat o t] n Image_save_def)
  show ?thesis
    by (simp add: convert_image_Inr [OF b] Image_new_def)
qed

text \<open>
  Claim C4, at an image of mode \<open>LA\<close> (grey with an alpha band), which line 119
  sends to the flattening branch: \<open>split()\<close> has two bands, the index 3 of line 121
  raises \<open>IndexError\<close>, and the conversion returns a failure and writes nothing.
\<close>

theorem la_image_conversion_fails:
  "wf_image la_image \<and> has_alpha la_image \<and>
   Image_open example_world ''/in/la.heic'' = Inr la_image \<and>
   convert_image example_world ''/in/la.heic'' ''/out'' 90 False True None =
     ((False, ''tuple index out of range''), example_world)"
proof -
  have w: "wf_image la_image"
    by (simp add: wf_image_def la_image_def getbands_def)
  have h: "has_alpha la_image"
    by (simp add: has_alpha_def la_image_def getbands_def)
  have o: "Image_open example_world ''/in/la.heic'' = Inr la_image"
    by (simp add: Image_open_def example_world_def)
  have t: "to_rgb example_world la_image = Inl (Exn ''IndexError'' ''tuple index out of range'')"
    by (rule to_rgb_LA) (simp_all add: la_image_def)
  have "convert_body example_world ''/in/la.heic'' ''/out'' 90 False True None =
      (Inl (Exn ''IndexError'' ''tuple index out of range''), example_world)"
    by (rule convert_body_to_rgb_fails [OF resolve_flat o t])
  then have "convert_image example_world ''/in/la.heic'' ''/out'' 90 False True None =
     ((False, ''tuple index out of range''), example_world)"
    by (simp add: convert_image_def)
  with w h o show ?thesis by simp
qed

text \<open>
  Claim C7. With \<open>keep_exif\<close> set, when \<open>getexif()\<close> raises, the metadata is
  \<open>None\<close> and the conversion goes on: if the image opens, the colour conversion returns
  and the save does not raise, the result is \<open>(True, jpeg_path)\<close> and the file is saved
  without metadata.
\<close>

theorem metadata_failure_does_not_abort:
  "resolve_output_dir w p out ps = (Inr d, w1) \<and> Image_open w1 p = Inr im \<and>
   getexif im = Inl e \<and> to_rgb w1 im = Inr fin \<and>
   save_error w1 (join d (output_name (now w1) p rp @ ''.jpg'')) = None \<longrightarrow>
   read_exif True im = None \<and>
   (\<exists>w2. convert_image w p out q ps True rp =
            ((True, join d (output_name (now w1) p rp @ ''.jpg'')), w2) \<and>
         files w2 (join d (output_name (now w1) p rp @ ''.jpg'')) =
            Some \<lparr>sv_image = fin, sv_quality = q, sv_exif = None\<rparr> \<and>
         effects w2 = effects w1 @ [Save (join d (output_name (now w1) p rp @ ''.jpg''))])"
proof (intro impI, elim conjE)
  let ?jp = "join d (output_name (now w1) p rp @ ''.jpg'')"
  assume r: "resolve_output_dir w p out ps = (Inr d, w1)"
    and o: "Image_open w1 p = Inr im"
    and g: "getexif im = Inl e"
    and t: "to_rgb w1 im = Inr fin"
    and s: "save_error w1 ?jp = None"
  have x: "read_exif True im = None"
    by (simp add: read_exif_def g)
  have sv: "Image_save w1 fin ?jp q (exif_to_save True (read_exif True im)) =
      Inr (w1\<lparr>files := (files w1)(?jp \<mapsto> \<lparr>sv_image = fin, sv_quality = q, sv_exif = None\<rparr>),
              effects := effects w1 @ [Save ?jp]\<rparr>)"
    by (simp add: Image_save_def s x exif_to_save_def)
  have "convert_body w p out q ps True rp =
      (Inr ?jp, w1\<lparr>files := (files w1)(?jp \<mapsto> \<lparr>sv_image = fin, sv_quality = q, sv_exif = None\<rparr>),
              effects := effects w1 @ [Save ?jp]\<rparr>)"
    by (simp add: convert_body_save [OF r o t] sv)
  then have "convert_image w p out q ps True rp =
      ((True, ?jp), w1\<lparr>files := (files w1)(?jp \<mapsto> \<lparr>sv_image = fin, sv_quality = q, sv_exif = None\<rparr>),
              effects := effects w1 @ [Save ?jp]\<rparr>)"
    by (rule convert_image_Inr)
  then show "read_exif True im = None \<and>
   (\<exists>w2. convert_image w p out q ps True rp = ((True, ?jp), w2) \<and>
         files w2 ?jp = Some \<lparr>sv_image = fin, sv_quality = q, sv_exif = None\<rparr> \<and>
         effects w2 = effects w1 @ [Save ?jp])"
    using x by simp
qed

theorem metadata_failure_does_not_abort_witness:
  "getexif noexif_image = Inl (Exn ''SyntaxError'' ''not a TIFF file'') \<and>
   (\<exists>w2. convert_image example_world ''/in/noexif.heic'' ''/out'' 90 False True None =
            ((True, ''/out/noexif.jpg''), w2) \<and>
         files w2 ''/out/noexif.jpg'' =
            Some \<lparr>sv_image = noexif_image, sv_quality = 90, sv_exif = None\<rparr> \<and>
         effects w2 = [Save ''/out/noexif.jpg''])"
proof -
  have o: "Image_open example_world ''/in/noexif.heic'' = Inr noexif_image"
    by (simp add: Image_open_def example_world_def)
  have g: "getexif noexif_image = Inl (Exn ''SyntaxError'' ''not a TIFF file'')"
    by (simp add: getexif_def noexif_image_def)
  have t: "to_rgb example_world noexif_image = Inr noexif_image"
    by (simp add: to_rgb_def convert_def example_world_def noexif_image_def)
  have n: "join ''/out'' (output_name (now example_world) ''/in/noexif.heic'' None @ ''.jpg'') =
      ''/out/noexif.jpg''"
    by (simp add: output_name_def path_defs Let_def)
  have s: "save_error example_world ''/out/noexif.jpg'' = None"
    by (simp add: example_world_def)
  have e: "effects example_world = []"
    by (simp add: example_world_def)
  from metadata_failure_does_not_abort
    [of example_world "''/in/noexif.heic''" "''/out''" False "''/out''" example_world
        noexif_image "Exn ''SyntaxError'' ''not a TIFF file''" noexif_image None 90]
    resolve_flat [of example_world "''/in/noexif.heic''" "''/out''"] o g t n s e
  show ?thesis by simp
qed


lemma digit_is_digit: "digit n \<in> set ''0123456789''"
  unfolding digit_def by (rule nth_mem) simp

lemma strftime_chars:
  "strftime t =
     [digit (dt_year t div 1000), digit (dt_year t div 100), digit (dt_year t div 10),
      digit (dt_year t), digit (dt_month t div 10), digit (dt_month t),
      digit (dt_day t div 10), digit (dt_day t), CHR ''_'',
      digit (dt_hour t div 10), digit (dt_hour t), digit (dt_minute t div 10),
      digit (dt_minute t), digit (dt_second t div 10), digit (dt_second t)]"
  by (simp add: strftime_def show2_def show4_def)

lemma strftime_format:
  "length (strftime t) = 15 \<and> strftime t ! 8 = CHR ''_'' \<and>
   list_all (\<lambda>c. c \<in> set ''0123456789'') (take 8 (strftime t) @ drop 9 (strftime t))"
proof (intro conjI)
  show "length (strftime t) = 15" by (simp add: strftime_chars)
  show "strftime t ! 8 = CHR ''_''" by (simp add: strftime_chars)
  have "take 8 (strftime t) @ drop 9 (strftime t) =
     [digit (dt_year t div 1000), digit (dt_year t div 100), digit (dt_year t div 10),
      digit (dt_year t), digit (dt_month t div 10), digit (dt_month t),
      digit (dt_day t div 10), digit (dt_day t),
      digit (dt_hour t div 10), digit (dt_hour t), digit (dt_minute t div 10),
      digit (dt_minute t), digit (dt_second t div 10), digit (dt_second t)]"
    by (simp add: strftime_chars)
  then show "list_all (\<lambda>c. c \<in> set ''0123456789'') (take 8 (strftime t) @ drop 9 (strftime t))"
    by (simp only: list.pred_inject digit_is_digit simp_thms)
qed

lemma str_nat_1: "str_nat (Suc 0) = ''1''"
  by (simp add: str_nat.simps digit_def)

lemma output_name_pattern:
  "pat \<noteq> [] \<Longrightarrow>
   output_name t p (Some pat) =
     chained_replace pat (fst (splitext (basename p))) (strftime t) ''1''"
  by (simp add: output_name_def Let_def str_nat_1 chained_replace_def)

lemma Image_save_ok:
  "save_error w jp = None \<Longrightarrow>
   Image_save w fin jp q ex =
     Inr (w\<lparr>files := (files w)(jp \<mapsto> \<lparr>sv_image = fin, sv_quality = q, sv_exif = ex\<rparr>),
            effects := effects w @ [Save jp]\<rparr>)"
  by (simp add: Image_save_def)

lemma convert_image_ok:
  assumes "resolve_output_dir w p out ps = (Inr d, w1)"
    and "Image_open w1 p = Inr im" and "to_rgb w1 im = Inr fin"
    and "save_error w1 (join d (output_name (now w1) p rp @ ''.jpg'')) = None"
  shows "convert_image w p out q ps ke rp =
     ((True, join d (output_name (now w1) p rp @ ''.jpg'')),
      w1\<lparr>files := (files w1)(join d (output_name (now w1) p rp @ ''.jpg'') \<mapsto>
             \<lparr>sv_image = fin, sv_quality = q,
              sv_exif = exif_to_save ke (read_exif ke im)\<rparr>),
         effects := effects w1 @ [Save (join d (output_name (now w1) p rp @ ''.jpg''))]\<rparr>)"
proof -
  have "convert_body w p out q ps ke rp =
     (Inr (join d (output_name (now w1) p rp @ ''.jpg'')),
      w1\<lparr>files := (files w1)(join d (output_name (now w1) p rp @ ''.jpg'') \<mapsto>
             \<lparr>sv_image = fin, sv_quality = q,
              sv_exif = exif_to_save ke (read_exif ke im)\<rparr>),
         effects := effects w1 @ [Save (join d (output_name (now w1) p rp @ ''.jpg''))]\<rparr>)"
    by (simp add: convert_body_save [OF assms(1-3)] Image_save_ok [OF assms(4)])
  then show ?thesis by (rule convert_image_Inr)
qed

lemma digit_val_table:
  "map digit_val ''0123456789'' = [0, 1, 2, 3, 4, 5, 6, 7, 8, 9]"
  by (simp add: digit_val_def)

lemma upt_10: "[0, 1, 2, 3, 4, 5, 6, 7, 8, 9] = [0 ..< (10::nat)]"
  by (simp add: upt_rec)

lemma digit_val_digit: "digit_val (digit k) = k mod 10"
proof -
  have "digit_val (''0123456789'' ! (k mod 10)) = map digit_val ''0123456789'' ! (k mod 10)"
    by (rule nth_map [symmetric]) simp
  also have "\<dots> = [0 ..< 10] ! (k mod 10)"
    by (simp only: digit_val_table upt_10)
  also have "\<dots> = k mod 10"
    by simp
  finally show ?thesis
    by (simp add: digit_def)
qed

lemma decimal_show2: "n < 100 \<Longrightarrow> decimal (show2 n) = n"
  by (simp add: decimal_def show2_def digit_val_digit)

lemma decimal_show4: "n < 10000 \<Longrightarrow> decimal (show4 n) = n"
proof -
  assume n: "n < 10000"
  have h: "n div 100 = n div 10 div 10" "n div 1000 = n div 10 div 10 div 10"
    by (simp_all add: div_mult2_eq [symmetric])
  have e: "10 * (m div 10) + m mod 10 = m" for m :: nat
    by simp
  have a: "1000 * (n div 1000) + 100 * (n div 100 mod 10) + 10 * (n div 10 mod 10) + n mod 10 = n"
    unfolding h using e [of n] e [of "n div 10"] e [of "n div 10 div 10"] by linarith
  from n show ?thesis
    by (simp add: decimal_def show4_def digit_val_digit a)
qed


lemma py_replace_skip:
  "old \<noteq> [] \<Longrightarrow> hd old \<notin> set u \<Longrightarrow> py_replace (u @ x) old new = u @ py_replace x old new"
proof (induction u)
  case Nil
  show ?case by simp
next
  case (Cons a u)
  from Cons.prems have "\<not> py_startswith (a # u @ x) old"
    by (cases old) (auto simp: py_startswith_def)
  with Cons show ?case by simp
qed

lemma py_replace_hit:
  "old \<noteq> [] \<Longrightarrow> py_replace (old @ x) old new = new @ py_replace x old new"
  by (cases old) (simp_all add: py_startswith_def)

lemma py_replace_other:
  "old \<noteq> [] \<Longrightarrow> \<not> py_startswith (c # u @ x) old \<Longrightarrow> hd old \<notin> set u \<Longrightarrow>
   py_replace (c # u @ x) old new = c # u @ py_replace x old new"
  by (simp add: py_replace_skip)

lemma py_startswith_split: "py_startswith s p \<Longrightarrow> s = p @ drop (length p) s"
  by (metis append_take_drop_id py_startswith_def)

lemma chained_replace_name:
  assumes "CHR ''{'' \<notin> set name"
  shows "chained_replace (''{name}'' @ x) name ts cnt = name @ chained_replace x name ts cnt"
proof -
  have "py_replace (''{name}'' @ x) ''{name}'' name = name @ py_replace x ''{name}'' name"
    by (rule py_replace_hit) simp
  with assms show ?thesis
    unfolding chained_replace_def by (simp add: py_replace_skip del: py_replace.simps)
qed

lemma chained_replace_timestamp:
  assumes "CHR ''{'' \<notin> set ts"
  shows "chained_replace (''{timestamp}'' @ x) name ts cnt = ts @ chained_replace x name ts cnt"
proof -
  have "py_replace (CHR ''{'' # ''timestamp}'' @ x) ''{name}'' name =
        CHR ''{'' # ''timestamp}'' @ py_replace x ''{name}'' name"
    by (rule py_replace_other) (simp_all add: py_startswith_def)
  then have a: "py_replace (''{timestamp}'' @ x) ''{name}'' name =
        ''{timestamp}'' @ py_replace x ''{name}'' name"
    by simp
  have b: "py_replace (''{timestamp}'' @ y) ''{timestamp}'' ts = ts @ py_replace y ''{timestamp}'' ts" for y
    by (rule py_replace_hit) simp
  from assms show ?thesis
    unfolding chained_replace_def a b by (simp add: py_replace_skip del: py_replace.simps)
qed

lemma chained_replace_counter:
  shows "chained_replace (''{counter}'' @ x) name ts cnt = cnt @ chained_replace x name ts cnt"
proof -
  have "py_replace (CHR ''{'' # ''counter}'' @ y) ''{name}'' new =
        CHR ''{'' # ''counter}'' @ py_replace y ''{name}'' new" for y new
    by (rule py_replace_other) (simp_all add: py_startswith_def)
  then have a: "py_replace (''{counter}'' @ y) ''{name}'' new =
        ''{counter}'' @ py_replace y ''{name}'' new" for y new
    by simp
  have "py_replace (CHR ''{'' # ''counter}'' @ y) ''{timestamp}'' new =
        CHR ''{'' # ''counter}'' @ py_replace y ''{timestamp}'' new" for y new
    by (rule py_replace_other) (simp_all add: py_startswith_def)
  then have b: "py_replace (''{counter}'' @ y) ''{timestamp}'' new =
        ''{counter}'' @ py_replace y ''{timestamp}'' new" for y new
    by simp
  have c: "py_replace (''{counter}'' @ y) ''{counter}'' new = new @ py_replace y ''{counter}'' new" for y new
    by (rule py_replace_hit) simp
  show ?thesis
    unfolding chained_replace_def a b c ..
qed

lemma chained_replace_char:
  assumes "c \<noteq> CHR ''{''"
  shows "chained_replace (c # x) name ts cnt = c # chained_replace x name ts cnt"
proof -
  have "py_replace ([c] @ y) old new = [c] @ py_replace y old new"
    if "old \<noteq> []" "hd old = CHR ''{''" for y old new
    by (rule py_replace_skip) (use that assms in auto)
  then have a: "py_replace (c # y) old new = c # py_replace y old new"
    if "old \<noteq> []" "hd old = CHR ''{''" for y old new
    using that by simp
  show ?thesis
    unfolding chained_replace_def by (simp add: a del: py_replace.simps)
qed

lemma chained_replace_Nil: "chained_replace [] name ts cnt = []"
  by (simp add: chained_replace_def)

lemma chained_replace_substitute_all:
  assumes "CHR ''{'' \<notin> set name" and "CHR ''{'' \<notin> set ts"
  shows "braces_are_placeholders pat \<Longrightarrow>
     chained_replace pat name ts cnt = substitute_all pat name ts cnt"
proof (induction pat rule: braces_are_placeholders.induct)
  case 1
  show ?case by (simp add: chained_replace_Nil)
next
  case (2 c cs)
  show ?case
  proof (cases "py_startswith (c # cs) ''{name}''")
    case True
    have "length ''{name}'' = 6" by simp
    with py_startswith_split [OF True]
    have e: "c # cs = ''{name}'' @ drop 6 (c # cs)" by metis
    from True "2.prems" have "braces_are_placeholders (drop 6 (c # cs))" by simp
    with "2.IH"(1) True
    have ih: "chained_replace (drop 6 (c # cs)) name ts cnt =
       substitute_all (drop 6 (c # cs)) name ts cnt" by blast
    have "chained_replace (c # cs) name ts cnt =
       name @ chained_replace (drop 6 (c # cs)) name ts cnt"
      using chained_replace_name [OF assms(1), of "drop 6 (c # cs)" ts cnt] unfolding e [symmetric] .
    with ih True show ?thesis by simp
  next
    case n: False
    show ?thesis
    proof (cases "py_startswith (c # cs) ''{timestamp}''")
      case True
      have "length ''{timestamp}'' = 11" by simp
      with py_startswith_split [OF True]
      have e: "c # cs = ''{timestamp}'' @ drop 11 (c # cs)" by metis
      from n True "2.prems" have "braces_are_placeholders (drop 11 (c # cs))" by simp
      with "2.IH"(2) n True
      have ih: "chained_replace (drop 11 (c # cs)) name ts cnt =
         substitute_all (drop 11 (c # cs)) name ts cnt" by blast
      have "chained_replace (c # cs) name ts cnt =
         ts @ chained_replace (drop 11 (c # cs)) name ts cnt"
        using chained_replace_timestamp [OF assms(2), of "drop 11 (c # cs)" name cnt] unfolding e [symmetric] .
      with ih n True show ?thesis by simp
    next
      case t: False
      show ?thesis
      proof (cases "py_startswith (c # cs) ''{counter}''")
        case True
        have "length ''{counter}'' = 9" by simp
        with py_startswith_split [OF True]
        have e: "c # cs = ''{counter}'' @ drop 9 (c # cs)" by metis
        from n t True "2.prems" have "braces_are_placeholders (drop 9 (c # cs))" by simp
        with "2.IH"(3) n t True
        have ih: "chained_replace (drop 9 (c # cs)) name ts cnt =
           substitute_all (drop 9 (c # cs)) name ts cnt" by blast
        have "chained_replace (c # cs) name ts cnt =
           cnt @ chained_replace (drop 9 (c # cs)) name ts cnt"
          using chained_replace_counter [of "drop 9 (c # cs)" name ts cnt] unfolding e [symmetric] .
        with ih n t True show ?thesis by simp
      next
        case k: False
        from n t k "2.prems" have c: "c \<noteq> CHR ''{''" and b: "braces_are_placeholders cs"
          by (auto split: if_splits)
        from "2.IH"(4) n t k c b
        have ih: "chained_replace cs name ts cnt = substitute_all cs name ts cnt" by blast
        from chained_replace_char [OF c] ih n t k show ?thesis by simp
      qed
    qed
  qed
qed


lemma strftime_no_brace: "CHR ''{'' \<notin> set (strftime t)"
proof -
  have "CHR ''{'' \<notin> set ''0123456789''" by simp
  with digit_is_digit have "CHR ''{'' \<noteq> digit n" for n by metis
  then show ?thesis by (simp add: strftime_chars)
qed

lemma strftime_decodes:
  assumes "valid_datetime t"
  shows "decimal (take 4 (strftime t)) = dt_year t \<and>
         decimal (take 2 (drop 4 (strftime t))) = dt_month t \<and>
         decimal (take 2 (drop 6 (strftime t))) = dt_day t \<and>
         decimal (take 2 (drop 9 (strftime t))) = dt_hour t \<and>
         decimal (take 2 (drop 11 (strftime t))) = dt_minute t \<and>
         decimal (take 2 (drop 13 (strftime t))) = dt_second t"
proof -
  have p: "take 4 (strftime t) = show4 (dt_year t)"
    "take 2 (drop 4 (strftime t)) = show2 (dt_month t)"
    "take 2 (drop 6 (strftime t)) = show2 (dt_day t)"
    "take 2 (drop 9 (strftime t)) = show2 (dt_hour t)"
    "take 2 (drop 11 (strftime t)) = show2 (dt_minute t)"
    "take 2 (drop 13 (strftime t)) = show2 (dt_second t)"
    by (simp_all add: strftime_chars show2_def show4_def)
  from assms have "dt_year t < 10000" "dt_month t < 100" "dt_day t < 100" "dt_hour t < 100"
    "dt_minute t < 100" "dt_second t < 100"
    by (simp_all add: valid_datetime_def)
  then show ?thesis
    unfolding p by (simp add: decimal_show2 decimal_show4)
qed

text \<open>
  Claim C3 (amended). With a rename pattern (a non-empty string, as
  \<open>if rename_pattern:\<close> asks) in which every opening brace begins one of \<open>{name}\<close>,
  \<open>{timestamp}\<close>, \<open>{counter}\<close>, and a source whose base name without its extension
  contains no opening brace, the base name of the output is the pattern with every
  occurrence of \<open>{name}\<close> replaced by that base name, every \<open>{timestamp}\<close> by the
  timestamp and every \<open>{counter}\<close> by the string \<open>1\<close>, whatever the state of the world;
  a conversion that succeeds returns and writes the resolved directory joined with this
  name and \<open>.jpg\<close>. The timestamp is the clock's value as \<open>YYYYMMDD_HHMMSS\<close>: fifteen
  characters; for a year from 1000 to 9999 the first four read as the year, the next
  two as the month, the next two as the day, then an underscore, and two each for the
  hour, the minute and the second; all but the underscore are decimal digits.
\<close>

theorem rename_pattern_output_path:
  "(pat \<noteq> [] \<and> braces_are_placeholders pat \<and>
    CHR ''{'' \<notin> set (fst (splitext (basename p))) \<longrightarrow>
    output_name t p (Some pat) =
      substitute_all pat (fst (splitext (basename p))) (strftime t) ''1'') \<and>
   (pat \<noteq> [] \<and> braces_are_placeholders pat \<and>
    CHR ''{'' \<notin> set (fst (splitext (basename p))) \<and>
    resolve_output_dir w p out ps = (Inr d, w1) \<and> Image_open w1 p = Inr im \<and>
    to_rgb w1 im = Inr fin \<and>
    save_error w1
      (join d (substitute_all pat (fst (splitext (basename p))) (strftime (now w1)) ''1'' @
               ''.jpg'')) = None \<longrightarrow>
    fst (convert_image w p out q ps ke (Some pat)) =
      (True, join d (substitute_all pat (fst (splitext (basename p))) (strftime (now w1)) ''1'' @
                     ''.jpg'')) \<and>
    effects (snd (convert_image w p out q ps ke (Some pat))) =
      effects w1 @
      [Save (join d (substitute_all pat (fst (splitext (basename p))) (strftime (now w1)) ''1'' @
                     ''.jpg''))]) \<and>
   (valid_datetime t \<longrightarrow>
    decimal (take 4 (strftime t)) = dt_year t \<and>
    decimal (take 2 (drop 4 (strftime t))) = dt_month t \<and>
    decimal (take 2 (drop 6 (strftime t))) = dt_day t \<and>
    decimal (take 2 (drop 9 (strftime t))) = dt_hour t \<and>
    decimal (take 2 (drop 11 (strftime t))) = dt_minute t \<and>
    decimal (take 2 (drop 13 (strftime t))) = dt_second t) \<and>
   length (strftime t) = 15 \<and> strftime t ! 8 = CHR ''_'' \<and>
   list_all (\<lambda>c. c \<in> set ''0123456789'') (take 8 (strftime t) @ drop 9 (strftime t))"
proof -
  have S: "output_name u p (Some pat) =
      substitute_all pat (fst (splitext (basename p))) (strftime u) ''1''"
    if "pat \<noteq> []" and "braces_are_placeholders pat"
      and "CHR ''{'' \<notin> set (fst (splitext (basename p)))" for u
    using output_name_pattern [OF that(1), of u p]
      chained_replace_substitute_all [OF that(3) strftime_no_brace that(2), of u "''1''"]
    by simp
  have A: "fst (convert_image w p out q ps ke (Some pat)) =
      (True, join d (substitute_all pat (fst (splitext (basename p))) (strftime (now w1)) ''1'' @
                     ''.jpg'')) \<and>
    effects (snd (convert_image w p out q ps ke (Some pat))) =
      effects w1 @
      [Save (join d (substitute_all pat (fst (splitext (basename p))) (strftime (now w1)) ''1'' @
                     ''.jpg''))]"
    if a: "pat \<noteq> [] \<and> braces_are_placeholders pat \<and>
      CHR ''{'' \<notin> set (fst (splitext (basename p))) \<and>
      resolve_output_dir w p out ps = (Inr d, w1) \<and>
      Image_open w1 p = Inr im \<and> to_rgb w1 im = Inr fin \<and>
      save_error w1
        (join d (substitute_all pat (fst (splitext (basename p))) (strftime (now w1)) ''1'' @
                 ''.jpg'')) = None"
  proof -
    from a have n: "output_name (now w1) p (Some pat) =
        substitute_all pat (fst (splitext (basename p))) (strftime (now w1)) ''1''"
      by (intro S) simp_all
    from a have s: "save_error w1 (join d (output_name (now w1) p (Some pat) @ ''.jpg'')) = None"
      by (simp only: n)
    from a have r: "resolve_output_dir w p out ps = (Inr d, w1)"
      and o: "Image_open w1 p = Inr im" and c: "to_rgb w1 im = Inr fin"
      by simp_all
    note ok = convert_image_ok [OF r o c s, of q ke]
    show ?thesis
      by (simp only: ok n fst_conv snd_conv) simp
  qed
  from S [of t] A strftime_decodes [of t] strftime_format [of t] show ?thesis by blast
qed

lemma example_substitution:
  "substitute_all ''{name}_{timestamp}_{counter}'' (fst (splitext (basename ''/in/a.heic'')))
     (strftime example_now) ''1'' = ''a_20250309_140500_1''"
  by (simp add: basename_def splitext_def after_last_def Let_def py_startswith_def
        strftime_def show2_def show4_def digit_def example_now_def)

lemma example_now_fields:
  "dt_year example_now = 2025" "dt_month example_now = 3" "dt_day example_now = 9"
  "dt_hour example_now = 14" "dt_minute example_now = 5" "dt_second example_now = 0"
  by (simp_all add: example_now_def)

theorem rename_pattern_output_path_witness:
  "braces_are_placeholders ''{name}_{timestamp}_{counter}'' \<and>
   valid_datetime example_now \<and>
   fst (convert_image example_world ''/in/a.heic'' ''/out'' 90 False True
          (Some ''{name}_{timestamp}_{counter}'')) =
     (True, ''/out/a_20250309_140500_1.jpg'') \<and>
   effects (snd (convert_image example_world ''/in/a.heic'' ''/out'' 90 False True
          (Some ''{name}_{timestamp}_{counter}''))) =
     [Save ''/out/a_20250309_140500_1.jpg''] \<and>
   output_name example_now ''/in/a.heic'' (Some ''{name}_{timestamp}_{counter}'') =
     ''a_20250309_140500_1'' \<and>
   decimal (take 4 (strftime example_now)) = 2025 \<and>
   decimal (take 2 (drop 4 (strftime example_now))) = 3 \<and>
   decimal (take 2 (drop 6 (strftime example_now))) = 9 \<and>
   decimal (take 2 (drop 9 (strftime example_now))) = 14 \<and>
   decimal (take 2 (drop 11 (strftime example_now))) = 5 \<and>
   decimal (take 2 (drop 13 (strftime example_now))) = 0"
proof -
  have o: "Image_open example_world ''/in/a.heic'' = Inr rgb_image"
    by (simp add: Image_open_def example_world_def)
  have c: "to_rgb example_world rgb_image = Inr rgb_image"
    by (simp add: to_rgb_def convert_def example_world_def rgb_image_def)
  have n: "now example_world = example_now"
    by (simp add: example_world_def)
  have j: "join ''/out'' ''a_20250309_140500_1.jpg'' = ''/out/a_20250309_140500_1.jpg''"
    by (simp add: join_def py_startswith_def py_endswith_def)
  have s: "save_error example_world ''/out/a_20250309_140500_1.jpg'' = None"
    by (simp add: example_world_def)
  have e: "effects example_world = []"
    by (simp add: example_world_def)
  have ne: "''{name}_{timestamp}_{counter}'' \<noteq> []" by simp
  have bp: "braces_are_placeholders ''{name}_{timestamp}_{counter}''"
    by (simp add: py_startswith_def)
  have nb: "CHR ''{'' \<notin> set (fst (splitext (basename ''/in/a.heic'')))"
    by (simp add: basename_def splitext_def after_last_def Let_def)
  have vd: "valid_datetime example_now"
    by (simp add: valid_datetime_def example_now_def)
  note T = rename_pattern_output_path
    [where pat = "''{name}_{timestamp}_{counter}''" and w = example_world
       and p = "''/in/a.heic''" and out = "''/out''" and ps = False and d = "''/out''"
       and ?w1.0 = example_world and im = rgb_image and fin = rgb_image and q = 90
       and ke = True and t = example_now]
  have h: "save_error example_world
      (join ''/out'' (substitute_all ''{name}_{timestamp}_{counter}''
         (fst (splitext (basename ''/in/a.heic''))) (strftime (now example_world)) ''1'' @
         ''.jpg'')) = None"
    by (simp del: substitute_all.simps add: n example_substitution j s)
  from T ne bp nb vd h resolve_flat [of example_world "''/in/a.heic''" "''/out''"] o c
  have "output_name example_now ''/in/a.heic'' (Some ''{name}_{timestamp}_{counter}'') =
      substitute_all ''{name}_{timestamp}_{counter}''
        (fst (splitext (basename ''/in/a.heic''))) (strftime example_now) ''1'' \<and>
    fst (convert_image example_world ''/in/a.heic'' ''/out'' 90 False True
          (Some ''{name}_{timestamp}_{counter}'')) =
      (True, join ''/out'' (substitute_all ''{name}_{timestamp}_{counter}''
         (fst (splitext (basename ''/in/a.heic''))) (strftime (now example_world)) ''1'' @
         ''.jpg'')) \<and>
    effects (snd (convert_image example_world ''/in/a.heic'' ''/out'' 90 False True
          (Some ''{name}_{timestamp}_{counter}''))) =
      effects example_world @
      [Save (join ''/out'' (substitute_all ''{name}_{timestamp}_{counter}''
         (fst (splitext (basename ''/in/a.heic''))) (strftime (now example_world)) ''1'' @
         ''.jpg''))] \<and>
    decimal (take 4 (strftime example_now)) = dt_year example_now \<and>
    decimal (take 2 (drop 4 (strftime example_now))) = dt_month example_now \<and>
    decimal (take 2 (drop 6 (strftime example_now))) = dt_day example_now \<and>
    decimal (take 2 (drop 9 (strftime example_now))) = dt_hour example_now \<and>
    decimal (take 2 (drop 11 (strftime example_now))) = dt_minute example_now \<and>
    decimal (take 2 (drop 13 (strftime example_now))) = dt_second example_now"
    by blast
  with bp vd show ?thesis
    by (simp del: py_replace.simps substitute_all.simps braces_are_placeholders.simps
          add: n e example_substitution j example_now_fields)
qed

text \<open>
  The claim as it was written fails where the three \<open>replace\<close> calls of lines 100-102
  act on text that an earlier call has put in. For the source \<open>/in/{counter}.heic\<close> and
  the pattern \<open>{name}_{counter}\<close> the code gives \<open>1_1\<close>, where replacing the occurrences
  of the placeholders in the pattern gives \<open>{counter}_1\<close>; for the source
  \<open>/in/stamp.heic\<close> and the pattern \<open>{time{name}}\<close>, which has no occurrence of
  \<open>{timestamp}\<close>, the code gives the timestamp.
\<close>

theorem replace_calls_rewrite_inserted_text:
  "output_name example_now ''/in/{counter}.heic'' (Some ''{name}_{counter}'') = ''1_1'' \<and>
   substitute_all ''{name}_{counter}'' (fst (splitext (basename ''/in/{counter}.heic'')))
     (strftime example_now) ''1'' = ''{counter}_1'' \<and>
   output_name example_now ''/in/stamp.heic'' (Some ''{time{name}}'') = ''20250309_140500'' \<and>
   substitute_all ''{time{name}}'' (fst (splitext (basename ''/in/stamp.heic'')))
     (strftime example_now) ''1'' = ''{timestamp}''"
  by (simp add: output_name_def basename_def splitext_def after_last_def Let_def
        py_startswith_def str_nat_1 strftime_def show2_def show4_def digit_def example_now_def)


lemma rstrip_sep_nonempty:
  "head \<noteq> replicate (length head) CHR ''/'' \<Longrightarrow> rstrip_sep head \<noteq> []"
proof
  assume ne: "head \<noteq> replicate (length head) CHR ''/''" and e: "rstrip_sep head = []"
  from e have "dropWhile (\<lambda>x. x = CHR ''/'') (rev head) = []"
    by (simp add: rstrip_sep_def)
  then have "\<forall>x\<in>set head. x = CHR ''/''"
    by (simp add: dropWhile_eq_Nil_conv)
  then have "head = replicate (length head) CHR ''/''"
    by (simp add: replicate_length_same)
  with ne show False by simp
qed

lemma takeWhile_neq_short:
  "x \<in> set xs \<Longrightarrow> length (takeWhile (\<lambda>y. y \<noteq> x) xs) < length xs"
  by (induction xs) auto

lemma takeWhile_rev_short:
  "c # cs = p \<Longrightarrow> c = x \<Longrightarrow> length (takeWhile (\<lambda>y. y \<noteq> x) (rev p)) < length p"
  using takeWhile_neq_short [of x "rev p"] by auto

lemma dirname_nonempty: "isabs p \<Longrightarrow> dirname p \<noteq> []"
proof -
  assume "isabs p"
  then obtain cs where p: "p = CHR ''/'' # cs"
    by (cases p) (auto simp: isabs_def py_startswith_def)
  have "length (takeWhile (\<lambda>y. y \<noteq> CHR ''/'') (rev p)) < length p"
    by (rule takeWhile_rev_short [of "CHR ''/''" cs]) (simp_all add: p)
  then have i: "0 < after_last CHR ''/'' p"
    by (simp add: after_last_def)
  then have h: "take (after_last CHR ''/'' p) p \<noteq> []"
    using p by auto
  show ?thesis
    using h rstrip_sep_nonempty [of "take (after_last CHR ''/'' p) p"]
    by (simp add: dirname_def Let_def)
qed

lemma relpath_total: "path \<noteq> [] \<Longrightarrow> \<exists>rel. relpath wd path start = Inr rel"
  by (simp add: relpath_def Let_def)

lemma os_makedirs_again:
  "os_makedirs w d True = Inr w1 \<Longrightarrow>
   d \<in> dirs w1 \<and> effects w1 = effects w @ [MakeDirs d] \<and>
   os_makedirs w1 d True = Inr (w1\<lparr>effects := effects w1 @ [MakeDirs d]\<rparr>) \<and>
   files w1 = files w \<and> now w1 = now w"
  by (auto simp: os_makedirs_def split: option.splits if_splits)

lemma resolve_rebase:
  "isabs p \<Longrightarrow> \<not> py_startswith (dirname p) out \<Longrightarrow>
   relpath (cwd w) (dirname p) (dirname out) = Inr rel \<Longrightarrow>
   resolve_output_dir w p out True =
     (case os_makedirs w (join out rel) True of
        Inl e \<Rightarrow> (Inl e, w)
      | Inr w1 \<Rightarrow> (Inr (join out rel), w1))"
  by (simp add: resolve_output_dir_def Let_def)

lemma convert_body_effects:
  "resolve_output_dir w p out ps = (Inr d, w1) \<Longrightarrow>
   convert_body w p out q ps ke rp = (r, w2) \<Longrightarrow>
   (case r of
      Inl e \<Rightarrow> w2 = w1
    | Inr jp \<Rightarrow> jp = join d (output_name (now w1) p rp @ ''.jpg'') \<and>
               effects w2 = effects w1 @ [Save jp] \<and> dirs w2 = dirs w1)"
  by (auto simp: convert_body_def Let_def Image_save_def split: sum.splits option.splits)

lemma split_sep_nonempty: "split_sep s \<noteq> []"
  by (induction s) (auto split: list.splits)

lemma split_sep_append:
  "split_sep (c @ CHR ''/'' # r) = split_sep c @ split_sep r"
proof (induction c)
  case Nil
  show ?case by simp
next
  case (Cons x xs)
  obtain y ys where s: "split_sep xs = y # ys"
    using split_sep_nonempty [of xs] by (cases "split_sep xs") auto
  with Cons show ?case by simp
qed

lemma split_sep_no_sep: "x \<in> set (split_sep s) \<Longrightarrow> CHR ''/'' \<notin> set x"
proof (induction s arbitrary: x)
  case Nil
  then show ?case by simp
next
  case (Cons c cs)
  then show ?case
    by (cases "split_sep cs") (auto split: if_splits)
qed

lemma split_sep_single: "CHR ''/'' \<notin> set x \<Longrightarrow> split_sep x = [x]"
  by (induction x) auto

lemma split_join_sep:
  "R \<noteq> [] \<Longrightarrow> \<forall>x\<in>set R. CHR ''/'' \<notin> set x \<Longrightarrow> split_sep (join_sep R) = R"
proof (induction R rule: join_sep.induct)
  case 1
  then show ?case by simp
next
  case (2 x)
  then show ?case by (simp add: split_sep_single)
next
  case (3 x y ys)
  then show ?case by (simp add: split_sep_append split_sep_single)
qed

lemma split_sep_replicate:
  "split_sep (replicate k CHR ''/'' @ s) = replicate k [] @ split_sep s"
  by (induction k) auto

lemma norm_comps_append:
  "norm_comps k (xs @ ys) acc = norm_comps k ys (norm_comps k xs acc)"
  by (induction xs arbitrary: acc) auto

lemma norm_comps_rooted: "0 < k \<Longrightarrow> norm_comps k xs acc = norm_comps 1 xs acc"
  by (induction xs arbitrary: acc) auto

lemma norm_comps_plain: "list_all plain_name R \<Longrightarrow> norm_comps k R acc = acc @ R"
  by (induction R arbitrary: acc) (auto simp: plain_name_def)

lemma norm_comps_keeps_plain:
  "list_all plain_name acc \<Longrightarrow> \<forall>x\<in>set xs. CHR ''/'' \<notin> set x \<Longrightarrow>
   list_all plain_name (norm_comps 1 xs acc)"
proof (induction xs arbitrary: acc)
  case Nil
  then show ?case by simp
next
  case (Cons x xs)
  have b: "list_all plain_name (butlast acc)"
    using Cons.prems(1) by (auto simp: list_all_iff dest: in_set_butlastD)
  have l: "acc \<noteq> [] \<Longrightarrow> last acc \<noteq> ''..''"
    using Cons.prems(1) by (auto simp: list_all_iff plain_name_def dest: last_in_set)
  have a: "x \<noteq> [] \<Longrightarrow> x \<noteq> ''.'' \<Longrightarrow> x \<noteq> ''..'' \<Longrightarrow> list_all plain_name (acc @ [x])"
    using Cons.prems by (simp add: list_all_iff plain_name_def)
  from Cons.prems(2) have r: "\<forall>x\<in>set xs. CHR ''/'' \<notin> set x" by simp
  show ?case
    using Cons.IH [OF Cons.prems(1) r] Cons.IH [OF b r] Cons.IH [OF a r] l
    by auto
qed


lemma filter_plain: "list_all plain_name R \<Longrightarrow> filter (\<lambda>x. x \<noteq> []) R = R"
  by (induction R) (auto simp: plain_name_def)

lemma components_of_joined:
  assumes "list_all plain_name comps"
  shows "filter (\<lambda>x. x \<noteq> []) (split_sep (replicate k CHR ''/'' @ join_sep comps)) = comps"
proof (cases "comps = []")
  case True
  then show ?thesis using split_sep_replicate [of k "[]"] by simp
next
  case False
  from assms have "\<forall>x\<in>set comps. CHR ''/'' \<notin> set x"
    by (auto simp: list_all_iff plain_name_def)
  with False have "split_sep (join_sep comps) = comps"
    by (rule split_join_sep)
  then show ?thesis
    by (simp add: split_sep_replicate filter_plain [OF assms])
qed

lemma normpath_components:
  assumes "py_startswith s ''/''"
  shows "filter (\<lambda>x. x \<noteq> []) (split_sep (normpath s)) = norm_comps 1 (split_sep s) []"
proof -
  define k where "k = (if py_startswith s ''//'' then
       (if py_startswith s ''///'' then (1::nat) else 2) else 1)"
  have k: "0 < k" by (simp add: k_def)
  from assms have ne: "s \<noteq> []" by (auto simp: py_startswith_def)
  have pl: "list_all plain_name (norm_comps 1 (split_sep s) [])"
    by (rule norm_comps_keeps_plain) (auto dest: split_sep_no_sep)
  have "normpath s = replicate k CHR ''/'' @ join_sep (norm_comps k (split_sep s) [])"
    using assms ne k by (simp add: normpath_def Let_def k_def)
  then have n: "normpath s = replicate k CHR ''/'' @ join_sep (norm_comps 1 (split_sep s) [])"
    by (simp only: norm_comps_rooted [OF k])
  show ?thesis
    unfolding n by (rule components_of_joined [OF pl])
qed

lemma absolute_rooted: "isabs wd \<Longrightarrow> py_startswith (absolute wd p) ''/''"
  by (cases wd) (auto simp: absolute_def isabs_def join_def py_startswith_def)

lemma path_components_norm:
  "isabs wd \<Longrightarrow> path_components wd p = norm_comps 1 (split_sep (absolute wd p)) []"
  using normpath_components [OF absolute_rooted, of wd p]
  by (simp add: path_components_def abspath_def absolute_def)

lemma path_components_plain: "isabs wd \<Longrightarrow> list_all plain_name (path_components wd p)"
  unfolding path_components_norm
  by (rule norm_comps_keeps_plain) (auto dest: split_sep_no_sep)


lemma py_endswith_sep: "py_endswith d ''/'' = (d \<noteq> [] \<and> last d = CHR ''/'')"
  by (cases d rule: rev_cases) (simp_all add: py_endswith_def)

lemma join_relative: "\<not> py_startswith b ''/'' \<Longrightarrow> join a b = join_prefix a @ b"
  by (simp add: join_def join_prefix_def)

lemma join_prefix_idem: "join_prefix (join_prefix a) = join_prefix a"
  by (simp add: join_prefix_def py_endswith_sep)

lemma join_prefix_append: "x \<noteq> [] \<Longrightarrow> join_prefix (a @ x) = a @ join_prefix x"
  by (simp add: join_prefix_def py_endswith_sep)

lemma absolute_join:
  assumes "isabs wd" and "rel \<noteq> []" and "\<not> py_startswith rel ''/''"
  shows "absolute wd (join x rel) = join_prefix (absolute wd x) @ rel"
proof (cases "x = []")
  case True
  from assms(3) have "absolute wd rel = join_prefix wd @ rel"
    by (simp add: absolute_def isabs_def join_relative)
  moreover have "absolute wd [] = join_prefix wd"
    by (simp add: absolute_def isabs_def py_startswith_def join_relative)
  ultimately show ?thesis
    using assms(3) by (simp add: True join_def join_prefix_idem)
next
  case False
  then obtain c cs where x: "x = c # cs" by (cases x) auto
  have j: "join x rel = join_prefix x @ rel"
    using assms(3) by (rule join_relative)
  show ?thesis
  proof (cases "isabs x")
    case True
    then have "isabs (join_prefix x @ rel)"
      by (simp add: isabs_def py_startswith_def x join_prefix_def)
    with True show ?thesis by (simp add: absolute_def j)
  next
    case na: False
    then have n1: "\<not> py_startswith (join_prefix x @ rel) ''/''"
      by (simp add: isabs_def py_startswith_def x join_prefix_def)
    from na have n2: "\<not> py_startswith x ''/''" by (simp add: isabs_def)
    have "absolute wd (join x rel) = join_prefix wd @ join_prefix x @ rel"
      using n1 by (simp add: absolute_def j isabs_def join_relative)
    moreover have "absolute wd x = join_prefix wd @ x"
      using n2 by (simp add: absolute_def isabs_def join_relative)
    ultimately show ?thesis
      by (simp add: join_prefix_append [OF False])
  qed
qed

lemma norm_comps_join_prefix:
  assumes "a \<noteq> []"
  shows "\<exists>c. join_prefix a = c @ ''/'' \<and>
     norm_comps 1 (split_sep c) acc = norm_comps 1 (split_sep a) acc"
proof (cases "last a = CHR ''/''")
  case True
  with assms obtain c where a: "a = c @ ''/''"
    by (metis append_butlast_last_id)
  have "split_sep a = split_sep c @ split_sep []"
    unfolding a using split_sep_append [of c "[]"] by simp
  then have "norm_comps 1 (split_sep a) acc = norm_comps 1 (split_sep c) acc"
    by (simp add: norm_comps_append)
  moreover have "join_prefix a = c @ ''/''"
    by (simp add: a join_prefix_def py_endswith_sep)
  ultimately show ?thesis by auto
next
  case False
  with assms have "join_prefix a = a @ ''/''"
    by (simp add: join_prefix_def py_endswith_sep)
  then show ?thesis by auto
qed

lemma join_sep_Cons: "join_sep (x # xs) = x @ (if xs = [] then [] else CHR ''/'' # join_sep xs)"
  by (cases xs) simp_all

lemma rel_string_relative:
  assumes "list_all plain_name R"
  shows "rel_string R \<noteq> [] \<and> \<not> py_startswith (rel_string R) ''/''"
proof (cases R)
  case Nil
  then show ?thesis by (simp add: rel_string_def py_startswith_def)
next
  case (Cons x xs)
  with assms obtain c cs where x: "x = c # cs" "c \<noteq> CHR ''/''"
    by (cases x) (auto simp: plain_name_def)
  show ?thesis
    by (simp add: rel_string_def Cons join_sep_Cons x py_startswith_def)
qed

lemma norm_comps_rel_string:
  assumes "list_all plain_name R"
  shows "norm_comps 1 (split_sep (rel_string R)) acc = acc @ R"
proof (cases "R = []")
  case True
  then show ?thesis by (simp add: rel_string_def)
next
  case False
  from assms have "\<forall>x\<in>set R. CHR ''/'' \<notin> set x"
    by (auto simp: list_all_iff plain_name_def)
  with False have "split_sep (join_sep R) = R" by (rule split_join_sep)
  with False show ?thesis
    by (simp add: rel_string_def norm_comps_plain [OF assms])
qed

lemma path_components_join:
  assumes "isabs wd" and "list_all plain_name R"
  shows "path_components wd (join x (rel_string R)) = path_components wd x @ R"
proof -
  note r = rel_string_relative [OF assms(2)]
  from absolute_rooted [OF assms(1), of x] have ne: "absolute wd x \<noteq> []"
    by (auto simp: py_startswith_def)
  from norm_comps_join_prefix [OF ne, of "[]"] obtain c
    where c: "join_prefix (absolute wd x) = c @ ''/''"
      and n: "norm_comps 1 (split_sep c) [] = norm_comps 1 (split_sep (absolute wd x)) []"
    by blast
  have "absolute wd (join x (rel_string R)) = c @ CHR ''/'' # rel_string R"
    using absolute_join [OF assms(1) conjunct1 [OF r] conjunct2 [OF r], of x] c by simp
  then have "split_sep (absolute wd (join x (rel_string R))) =
      split_sep c @ split_sep (rel_string R)"
    by (simp only: split_sep_append)
  then have "path_components wd (join x (rel_string R)) =
      norm_comps 1 (split_sep c @ split_sep (rel_string R)) []"
    by (simp only: path_components_norm [OF assms(1)])
  also have "\<dots> = norm_comps 1 (split_sep (rel_string R)) (norm_comps 1 (split_sep c) [])"
    by (rule norm_comps_append)
  also have "\<dots> = norm_comps 1 (split_sep c) [] @ R"
    by (rule norm_comps_rel_string [OF assms(2)])
  also have "\<dots> = path_components wd x @ R"
    by (simp only: n path_components_norm [OF assms(1)])
  finally show ?thesis .
qed

lemma commonprefix_prefix: "prefix xs ys \<Longrightarrow> commonprefix xs ys = xs"
  by (induction xs ys rule: commonprefix.induct) simp_all

lemma relpath_below:
  assumes "path \<noteq> []" and "under_dir wd path start"
  shows "relpath wd path start =
     Inr (rel_string (drop (length (path_components wd start)) (path_components wd path)))"
  using assms commonprefix_prefix [of "path_components wd start" "path_components wd path"]
  by (simp add: relpath_def Let_def rel_string_def under_dir_def path_components_def)


lemma rebase_lands_under_root:
  assumes "isabs wd" and "path \<noteq> []" and "under_dir wd path (dirname out)"
    and "relpath wd path (dirname out) = Inr rel"
  shows "under_dir wd (join out rel) out"
proof -
  let ?R = "drop (length (path_components wd (dirname out))) (path_components wd path)"
  from relpath_below [OF assms(2,3)] assms(4) have rel: "rel = rel_string ?R" by simp
  have "list_all plain_name ?R"
    using path_components_plain [OF assms(1), of path]
    by (auto simp: list_all_iff dest: in_set_dropD)
  from path_components_join [OF assms(1) this, of out] show ?thesis
    by (simp add: under_dir_def rel)
qed

lemma file_in_directory:
  assumes "isabs wd" and "plain_name n"
  shows "under_dir wd (join d n) d"
proof -
  from assms(2) have "list_all plain_name [n]" by simp
  from path_components_join [OF assms(1) this, of d] show ?thesis
    by (simp add: under_dir_def rel_string_def)
qed

lemma basename_no_sep: "CHR ''/'' \<notin> set (basename p)"
proof -
  let ?P = "\<lambda>x. x \<noteq> CHR ''/''"
  have "length (takeWhile ?P (rev p)) \<le> length p"
    using length_takeWhile_le [of ?P "rev p"] by simp
  then have "basename p = rev (take (length (takeWhile ?P (rev p))) (rev p))"
    by (simp add: basename_def after_last_def rev_take)
  also have "\<dots> = rev (takeWhile ?P (rev p))"
    by (simp add: takeWhile_eq_take [symmetric])
  finally show ?thesis
    by (auto dest: set_takeWhileD)
qed

lemma splitext_fst_subset: "set (fst (splitext f)) \<subseteq> set f"
  by (auto simp: splitext_def Let_def dest: in_set_takeD)

lemma output_name_plain: "plain_name (output_name t p None @ ''.jpg'')"
proof -
  have "CHR ''/'' \<notin> set (fst (splitext (basename p)))"
    using splitext_fst_subset [of "basename p"] basename_no_sep [of p] by blast
  then show ?thesis
    by (simp add: plain_name_def output_name_def Let_def)
qed

text \<open>
  Claim C2 (amended), for a POSIX system. With \<open>preserve_structure\<close> set, an absolute
  source path, a source directory whose string does not start with the output root's
  string, and that lies under the directory \<open>os.path.dirname\<close> gives for the output
  root (its parent), the resolver takes \<open>relpath\<close> of the source directory from that
  parent, joins it to the output root, which gives a directory under the output root,
  and calls \<open>os.makedirs\<close> with \<open>exist_ok=True\<close> on it. When that raises, the
  conversion fails with its message and changes nothing. Otherwise the directory
  exists afterwards, calling \<open>os.makedirs\<close> on it again succeeds and adds no directory,
  and a conversion that succeeds has saved the JPEG, after the \<open>makedirs\<close>, at that
  directory joined with the output name: inside that directory when there is no
  rename pattern. The working directory is absolute, as \<open>os.getcwd()\<close> returns it.
\<close>

theorem rebase_under_output_root:
  assumes "isabs (cwd w)" and "isabs p" and "\<not> py_startswith (dirname p) out"
    and "under_dir (cwd w) (dirname p) (dirname out)"
  shows "\<exists>rel. relpath (cwd w) (dirname p) (dirname out) = Inr rel \<and>
     under_dir (cwd w) (join out rel) out \<and>
     (case os_makedirs w (join out rel) True of
        Inl e \<Rightarrow> convert_image w p out q True ke rp = ((False, exn_message e), w)
      | Inr w1 \<Rightarrow>
          resolve_output_dir w p out True = (Inr (join out rel), w1) \<and>
          join out rel \<in> dirs w1 \<and>
          effects w1 = effects w @ [MakeDirs (join out rel)] \<and>
          os_makedirs w1 (join out rel) True =
            Inr (w1\<lparr>effects := effects w1 @ [MakeDirs (join out rel)]\<rparr>) \<and>
          (case convert_image w p out q True ke rp of
             ((ok, r), w2) \<Rightarrow>
               if ok then
                 r = join (join out rel) (output_name (now w) p rp @ ''.jpg'') \<and>
                 (rp = None \<longrightarrow> under_dir (cwd w) r (join out rel)) \<and>
                 effects w2 = effects w @ [MakeDirs (join out rel), Save r] \<and>
                 dirs w2 = dirs w1
               else w2 = w1))"
proof -
  from assms(2) have dn: "dirname p \<noteq> []" by (rule dirname_nonempty)
  then obtain rel where rel: "relpath (cwd w) (dirname p) (dirname out) = Inr rel"
    using relpath_total by blast
  note res = resolve_rebase [OF assms(2,3) rel]
  have u: "under_dir (cwd w) (join out rel) out"
    by (rule rebase_lands_under_root [OF assms(1) dn assms(4) rel])
  have f: "under_dir (cwd w) (join (join out rel) (output_name (now w) p None @ ''.jpg''))
      (join out rel)"
    by (rule file_in_directory [OF assms(1) output_name_plain])
  have "case os_makedirs w (join out rel) True of
        Inl e \<Rightarrow> convert_image w p out q True ke rp = ((False, exn_message e), w)
      | Inr w1 \<Rightarrow>
          resolve_output_dir w p out True = (Inr (join out rel), w1) \<and>
          join out rel \<in> dirs w1 \<and>
          effects w1 = effects w @ [MakeDirs (join out rel)] \<and>
          os_makedirs w1 (join out rel) True =
            Inr (w1\<lparr>effects := effects w1 @ [MakeDirs (join out rel)]\<rparr>) \<and>
          (case convert_image w p out q True ke rp of
             ((ok, r), w2) \<Rightarrow>
               if ok then
                 r = join (join out rel) (output_name (now w) p rp @ ''.jpg'') \<and>
                 (rp = None \<longrightarrow> under_dir (cwd w) r (join out rel)) \<and>
                 effects w2 = effects w @ [MakeDirs (join out rel), Save r] \<and>
                 dirs w2 = dirs w1
               else w2 = w1)"
  proof (cases "os_makedirs w (join out rel) True")
    case (Inl e)
    then have "convert_body w p out q True ke rp = (Inl e, w)"
      by (simp add: convert_body_def res)
    then show ?thesis
      by (simp add: Inl convert_image_def)
  next
    case (Inr w1)
    then have r1: "resolve_output_dir w p out True = (Inr (join out rel), w1)"
      by (simp add: res)
    note mk = os_makedirs_again [OF Inr]
    obtain r w2 where b: "convert_body w p out q True ke rp = (r, w2)"
      by (cases "convert_body w p out q True ke rp")
    note eff = convert_body_effects [OF r1 b]
    have "case convert_image w p out q True ke rp of
           ((ok, r), w2) \<Rightarrow>
             if ok then
               r = join (join out rel) (output_name (now w) p rp @ ''.jpg'') \<and>
               (rp = None \<longrightarrow> under_dir (cwd w) r (join out rel)) \<and>
               effects w2 = effects w @ [MakeDirs (join out rel), Save r] \<and>
               dirs w2 = dirs w1
             else w2 = w1"
      using eff mk f by (cases r) (auto simp: convert_image_def b)
    with r1 mk show ?thesis
      by (simp add: Inr)
  qed
  with rel u show ?thesis by blast
qed

lemma example_world_fields:
  "cwd example_world = ''/home/u''" "now example_world = example_now"
  "effects example_world = []" "dirs example_world = {''/out'', ''/full''}"
  "makedirs_error example_world d = None"
  by (simp_all add: example_world_def)

theorem rebase_under_output_root_witness:
  "isabs (cwd example_world) \<and> isabs ''/data/in/trip/a.heic'' \<and>
   \<not> py_startswith (dirname ''/data/in/trip/a.heic'') ''/data/out'' \<and>
   under_dir (cwd example_world) (dirname ''/data/in/trip/a.heic'') (dirname ''/data/out'') \<and>
   relpath ''/home/u'' (dirname ''/data/in/trip/a.heic'') (dirname ''/data/out'') = Inr ''in/trip'' \<and>
   under_dir ''/home/u'' ''/data/out/in/trip'' ''/data/out'' \<and>
   fst (convert_image example_world ''/data/in/trip/a.heic'' ''/data/out'' 90 True True None) =
     (True, ''/data/out/in/trip/a.jpg'') \<and>
   under_dir ''/home/u'' ''/data/out/in/trip/a.jpg'' ''/data/out/in/trip'' \<and>
   effects (snd (convert_image example_world ''/data/in/trip/a.heic'' ''/data/out'' 90 True True None)) =
     [MakeDirs ''/data/out/in/trip'', Save ''/data/out/in/trip/a.jpg''] \<and>
   ''/data/out/in/trip'' \<in>
     dirs (snd (convert_image example_world ''/data/in/trip/a.heic'' ''/data/out'' 90 True True None))"
proof -
  let ?p = "''/data/in/trip/a.heic''" and ?out = "''/data/out''"
  let ?w1 = "example_world\<lparr>dirs := insert ''/data/out/in/trip'' (dirs example_world),
                effects := effects example_world @ [MakeDirs ''/data/out/in/trip'']\<rparr>"
  have iw: "isabs (cwd example_world)"
    by (simp add: isabs_def py_startswith_def example_world_fields)
  have ia: "isabs ?p" by (simp add: isabs_def py_startswith_def)
  have dn: "dirname ?p = ''/data/in/trip''" "dirname ?out = ''/data''"
    by (simp_all add: path_defs Let_def)
  have ns: "\<not> py_startswith (dirname ?p) ?out"
    by (simp add: dn py_startswith_def)
  have ud: "under_dir (cwd example_world) (dirname ?p) (dirname ?out)"
    by (simp add: dn example_world_fields under_dir_def path_components_def abspath_def
          normpath_def path_defs Let_def)
  have rl: "relpath ''/home/u'' ''/data/in/trip'' ''/data'' = Inr ''in/trip''"
    by (simp add: relpath_def abspath_def normpath_def path_defs Let_def)
  have jn: "join ?out ''in/trip'' = ''/data/out/in/trip''"
    by (simp add: path_defs)
  have mk: "os_makedirs example_world ''/data/out/in/trip'' True = Inr ?w1"
    by (simp add: os_makedirs_def example_world_fields)
  have r1: "resolve_output_dir example_world ?p ?out True = (Inr ''/data/out/in/trip'', ?w1)"
    using resolve_rebase [OF ia ns, of example_world "''in/trip''"]
    by (simp add: dn rl jn mk example_world_fields)
  have o: "Image_open ?w1 ?p = Inr rgb_image"
    by (simp add: Image_open_def example_world_def)
  have c: "to_rgb ?w1 rgb_image = Inr rgb_image"
    by (simp add: to_rgb_def convert_def example_world_def rgb_image_def)
  have n: "join ''/data/out/in/trip'' (output_name (now ?w1) ?p None @ ''.jpg'') =
      ''/data/out/in/trip/a.jpg''"
    by (simp add: output_name_def path_defs Let_def)
  have s: "save_error ?w1 (join ''/data/out/in/trip'' (output_name (now ?w1) ?p None @ ''.jpg'')) = None"
    by (simp only: n) (simp add: example_world_def)
  note ok = convert_image_ok [OF r1 o c s, of 90 True]
  have f: "fst (convert_image example_world ?p ?out 90 True True None) =
      (True, ''/data/out/in/trip/a.jpg'')"
    by (simp only: ok n fst_conv)
  from rebase_under_output_root [OF iw ia ns ud, of 90 True None]
  obtain rel where rel: "relpath (cwd example_world) (dirname ?p) (dirname ?out) = Inr rel"
    and un: "under_dir (cwd example_world) (join ?out rel) ?out"
    and rest: "case os_makedirs example_world (join ?out rel) True of
        Inl e \<Rightarrow> convert_image example_world ?p ?out 90 True True None =
                  ((False, exn_message e), example_world)
      | Inr w1 \<Rightarrow>
          resolve_output_dir example_world ?p ?out True = (Inr (join ?out rel), w1) \<and>
          join ?out rel \<in> dirs w1 \<and>
          effects w1 = effects example_world @ [MakeDirs (join ?out rel)] \<and>
          os_makedirs w1 (join ?out rel) True =
            Inr (w1\<lparr>effects := effects w1 @ [MakeDirs (join ?out rel)]\<rparr>) \<and>
          (case convert_image example_world ?p ?out 90 True True None of
             ((ok, r), w2) \<Rightarrow>
               if ok then
                 r = join (join ?out rel) (output_name (now example_world) ?p None @ ''.jpg'') \<and>
                 ((None :: string option) = None \<longrightarrow> under_dir (cwd example_world) r (join ?out rel)) \<and>
                 effects w2 = effects example_world @ [MakeDirs (join ?out rel), Save r] \<and>
                 dirs w2 = dirs w1
               else w2 = w1)"
    by blast
  from rel have rel': "rel = ''in/trip''"
    by (simp add: example_world_fields dn rl)
  obtain w2 where cv: "convert_image example_world ?p ?out 90 True True None =
      ((True, ''/data/out/in/trip/a.jpg''), w2)"
    using f by (cases "convert_image example_world ?p ?out 90 True True None") auto
  have n': "join ''/data/out/in/trip'' (output_name example_now ?p None @ ''.jpg'') =
      ''/data/out/in/trip/a.jpg''"
    by (simp add: output_name_def path_defs Let_def)
  from rest have "effects w2 = [MakeDirs ''/data/out/in/trip'', Save ''/data/out/in/trip/a.jpg''] \<and>
      dirs w2 = dirs ?w1 \<and>
      under_dir ''/home/u'' ''/data/out/in/trip/a.jpg'' ''/data/out/in/trip''"
    by (simp add: rel' jn mk cv example_world_fields n')
  moreover from un have "under_dir ''/home/u'' ''/data/out/in/trip'' ''/data/out''"
    by (simp add: rel' jn example_world_fields)
  ultimately show ?thesis
    using iw ia ns ud rl dn f cv by simp
qed

text \<open>
  Claim C2 as stated fails in two ways. Where the source directory is outside the
  output root but its string starts with the root's string, nothing is rebased and no
  directory is made. Where the source directory is not under the parent of the output
  root, as \<open>/home/u/Pictures\<close> with the root \<open>/home/u/Desktop/jpgs\<close>, the relative path
  begins with \<open>..\<close> and the directory that is made, and the JPEG, are outside the
  output root.
\<close>

theorem rebase_skipped_or_outside_root:
  "isabs ''/photos/output_raw/a.heic'' \<and>
   under_dir ''/home/u'' (dirname ''/photos/output_raw/a.heic'') ''/photos/out'' = False \<and>
   relpath ''/home/u'' (dirname ''/photos/output_raw/a.heic'') (dirname ''/photos/out'') =
     Inr ''output_raw'' \<and>
   fst (convert_image example_world ''/photos/output_raw/a.heic'' ''/photos/out'' 90 True True None) =
     (True, ''/photos/out/a.jpg'') \<and>
   effects (snd (convert_image example_world ''/photos/output_raw/a.heic'' ''/photos/out'' 90
                   True True None)) = [Save ''/photos/out/a.jpg''] \<and>
   isabs ''/home/u/Pictures/a.heic'' \<and>
   under_dir ''/home/u'' (dirname ''/home/u/Pictures/a.heic'') ''/home/u/Desktop/jpgs'' = False \<and>
   relpath ''/home/u'' (dirname ''/home/u/Pictures/a.heic'') (dirname ''/home/u/Desktop/jpgs'') =
     Inr ''../Pictures'' \<and>
   fst (convert_image example_world ''/home/u/Pictures/a.heic'' ''/home/u/Desktop/jpgs'' 90
          True True None) = (True, ''/home/u/Desktop/jpgs/../Pictures/a.jpg'') \<and>
   effects (snd (convert_image example_world ''/home/u/Pictures/a.heic'' ''/home/u/Desktop/jpgs''
                   90 True True None)) =
     [MakeDirs ''/home/u/Desktop/jpgs/../Pictures'',
      Save ''/home/u/Desktop/jpgs/../Pictures/a.jpg''] \<and>
   under_dir ''/home/u'' ''/home/u/Desktop/jpgs/../Pictures'' ''/home/u/Desktop/jpgs'' = False \<and>
   under_dir ''/home/u'' ''/home/u/Desktop/jpgs/../Pictures/a.jpg'' ''/home/u/Desktop/jpgs'' = False"
proof -
  let ?p = "''/photos/output_raw/a.heic''" and ?out = "''/photos/out''"
  have ia: "isabs ?p" by (simp add: isabs_def py_startswith_def)
  have dn: "dirname ?p = ''/photos/output_raw''" "dirname ?out = ''/photos''"
    by (simp_all add: path_defs Let_def)
  have u: "under_dir ''/home/u'' ''/photos/output_raw'' ?out = False"
    by (simp add: under_dir_def path_components_def abspath_def normpath_def path_defs Let_def)
  have rl: "relpath ''/home/u'' ''/photos/output_raw'' ''/photos'' = Inr ''output_raw''"
    by (simp add: relpath_def abspath_def normpath_def path_defs Let_def)
  have r1: "resolve_output_dir example_world ?p ?out True = (Inr ?out, example_world)"
    by (simp add: resolve_output_dir_def dn Let_def ia) (simp add: py_startswith_def)
  have o: "Image_open example_world ?p = Inr rgb_image"
    by (simp add: Image_open_def example_world_def)
  have c: "to_rgb example_world rgb_image = Inr rgb_image"
    by (simp add: to_rgb_def convert_def example_world_def rgb_image_def)
  have n: "join ?out (output_name (now example_world) ?p None @ ''.jpg'') = ''/photos/out/a.jpg''"
    by (simp add: output_name_def path_defs Let_def)
  have s: "save_error example_world (join ?out (output_name (now example_world) ?p None @ ''.jpg'')) = None"
    by (simp only: n) (simp add: example_world_def)
  note ok = convert_image_ok [OF r1 o c s, of 90 True]
  have first: "isabs ?p \<and>
     under_dir ''/home/u'' (dirname ?p) ?out = False \<and>
     relpath ''/home/u'' (dirname ?p) (dirname ?out) = Inr ''output_raw'' \<and>
     fst (convert_image example_world ?p ?out 90 True True None) = (True, ''/photos/out/a.jpg'') \<and>
     effects (snd (convert_image example_world ?p ?out 90 True True None)) =
       [Save ''/photos/out/a.jpg'']"
    by (simp only: ok n fst_conv snd_conv dn u rl ia) (simp add: example_world_fields)
  let ?q = "''/home/u/Pictures/a.heic''" and ?root = "''/home/u/Desktop/jpgs''"
  let ?d = "''/home/u/Desktop/jpgs/../Pictures''"
  let ?w1 = "example_world\<lparr>dirs := insert ?d (dirs example_world),
                effects := effects example_world @ [MakeDirs ?d]\<rparr>"
  have ia2: "isabs ?q" by (simp add: isabs_def py_startswith_def)
  have dn2: "dirname ?q = ''/home/u/Pictures''" "dirname ?root = ''/home/u/Desktop''"
    by (simp_all add: path_defs Let_def)
  have ns2: "\<not> py_startswith (dirname ?q) ?root"
    by (simp add: dn2 py_startswith_def)
  have u2: "under_dir ''/home/u'' ''/home/u/Pictures'' ?root = False"
    "under_dir ''/home/u'' ?d ?root = False"
    "under_dir ''/home/u'' ''/home/u/Desktop/jpgs/../Pictures/a.jpg'' ?root = False"
    by (simp_all add: under_dir_def path_components_def abspath_def normpath_def path_defs Let_def)
  have rl2: "relpath ''/home/u'' ''/home/u/Pictures'' ''/home/u/Desktop'' = Inr ''../Pictures''"
    by (simp add: relpath_def abspath_def normpath_def path_defs Let_def)
  have jn2: "join ?root ''../Pictures'' = ?d"
    by (simp add: path_defs)
  have mk2: "os_makedirs example_world ?d True = Inr ?w1"
    by (simp add: os_makedirs_def example_world_fields)
  have r2: "resolve_output_dir example_world ?q ?root True = (Inr ?d, ?w1)"
    using resolve_rebase [OF ia2 ns2, of example_world "''../Pictures''"]
    by (simp add: dn2 rl2 jn2 mk2 example_world_fields)
  have o2: "Image_open ?w1 ?q = Inr rgb_image"
    by (simp add: Image_open_def example_world_def)
  have c2: "to_rgb ?w1 rgb_image = Inr rgb_image"
    by (simp add: to_rgb_def convert_def example_world_def rgb_image_def)
  have n2: "join ?d (output_name (now ?w1) ?q None @ ''.jpg'') =
      ''/home/u/Desktop/jpgs/../Pictures/a.jpg''"
    by (simp add: output_name_def path_defs Let_def)
  have s2: "save_error ?w1 (join ?d (output_name (now ?w1) ?q None @ ''.jpg'')) = None"
    by (simp only: n2) (simp add: example_world_def)
  note ok2 = convert_image_ok [OF r2 o2 c2 s2, of 90 True]
  have second: "isabs ?q \<and>
     under_dir ''/home/u'' (dirname ?q) ?root = False \<and>
     relpath ''/home/u'' (dirname ?q) (dirname ?root) = Inr ''../Pictures'' \<and>
     fst (convert_image example_world ?q ?root 90 True True None) =
       (True, ''/home/u/Desktop/jpgs/../Pictures/a.jpg'') \<and>
     effects (snd (convert_image example_world ?q ?root 90 True True None)) =
       [MakeDirs ?d, Save ''/home/u/Desktop/jpgs/../Pictures/a.jpg''] \<and>
     under_dir ''/home/u'' ?d ?root = False \<and>
     under_dir ''/home/u'' ''/home/u/Desktop/jpgs/../Pictures/a.jpg'' ?root = False"
    by (simp only: ok2 n2 fst_conv snd_conv dn2 u2 rl2 ia2) (simp add: example_world_fields)
  from first second show ?thesis by blast
qed

section \<open>Properties of \<open>start_conversion\<close>\<close>

text \<open>
  Claim C8. While \<open>conversion_running\<close> is set, \<open>start_conversion\<close> shows the
  notification "Conversion is already running!" and returns: no thread is started,
  the progress bar, the stop flag, the file list, the output directory and the file
  system are as they were.
\<close>

theorem start_conversion_rejected_while_running:
  "conversion_running a \<longrightarrow>
   start_conversion a w =
     (a\<lparr>notifications := notifications a @ [(''Conversion is already running!'', ''warning'')]\<rparr>, w) \<and>
   threads_started (fst (start_conversion a w)) = threads_started a \<and>
   conversion_running (fst (start_conversion a w)) \<and>
   stop_requested (fst (start_conversion a w)) = stop_requested a \<and>
   progress_value (fst (start_conversion a w)) = progress_value a \<and>
   progress_maximum (fst (start_conversion a w)) = progress_maximum a \<and>
   file_list (fst (start_conversion a w)) = file_list a \<and>
   output_dir (fst (start_conversion a w)) = output_dir a \<and>
   convert_btn (fst (start_conversion a w)) = convert_btn a \<and>
   snd (start_conversion a w) = w"
  by (simp add: start_conversion_def CustomNotification_def)

theorem start_conversion_rejected_while_running_witness:
  "conversion_running running_app \<and>
   start_conversion running_app example_world =
     (running_app\<lparr>notifications := [(''Conversion is already running!'', ''warning'')]\<rparr>,
      example_world) \<and>
   threads_started (fst (start_conversion running_app example_world)) = 1 \<and>
   stop_requested (fst (start_conversion running_app example_world)) = False"
proof -
  have r: "conversion_running running_app" by (simp add: running_app_def)
  have n: "notifications running_app = []" "threads_started running_app = 1"
     "stop_requested running_app = False"
    by (simp_all add: running_app_def)
  from start_conversion_rejected_while_running [of running_app example_world] r n
  show ?thesis by simp
qed

text \<open>When no conversion is running the same call starts one.\<close>

lemma start_conversion_starts:
  "fst (start_conversion (running_app\<lparr>conversion_running := False\<rparr>) example_world) =
     running_app\<lparr>threads_started := 2,
       notifications := [(''Starting conversion of 2 files'', ''info'')]\<rparr>"
  by (simp add: start_conversion_def CustomNotification_def running_app_def os_path_exists_def
        example_world_def str_nat.simps digit_def Let_def numeral_2_eq_2)

section \<open>Properties of \<open>find_heif_files\<close>\<close>




















section \<open>Properties of the batch run\<close>


lemma run_append: "run r (xs @ ys) s = run r ys (run r xs s)"
  by (induction xs arbitrary: s) auto

lemma ui_simps:
  "stop_requested (cancel_conversion a) = (stop_requested a \<or> conversion_running a)"
  "conversion_running (cancel_conversion a) = conversion_running a"
  "stop_requested (conversion_complete t sc ec a) = stop_requested a"
  "conversion_running (conversion_complete t sc ec a) = False"
  "stop_requested (update_progress c t f a) = stop_requested a"
  "conversion_running (update_progress c t f a) = conversion_running a"
  by (auto simp: cancel_conversion_def conversion_complete_def update_progress_def
        CustomNotification_def Let_def)

lemma cancel_conversion_idle: "\<not> conversion_running a \<Longrightarrow> cancel_conversion a = a"
  by (simp add: cancel_conversion_def)

lemma inv_count_step: "inv_count s \<Longrightarrow> inv_count (step r ev s)"
  by (cases ev)
     (auto simp: inv_count_def step_def thread_step_def record_result_def ui_simps Let_def
           split: list.splits phase.splits sum.splits)

lemma inv_progress_step: "inv_count s \<Longrightarrow> inv_progress s \<Longrightarrow> inv_progress (step r ev s)"
  by (cases ev)
     (auto simp: inv_count_def inv_progress_def step_def thread_step_def record_result_def
           Let_def split: list.splits phase.splits sum.splits)

lemma thread_step_phase:
  "phase s = Harvesting \<Longrightarrow> thread_step r s =
     (if total_files s \<le> harvest_i s then s\<lparr>phase := Exited\<rparr>
      else if stop_requested (ui s) then s\<lparr>phase := Stopping\<rparr>
      else s\<lparr>phase := Awaiting\<rparr>)"
  "phase s = Awaiting \<Longrightarrow> thread_step r s =
     (if harvest_i s \<in> set (finished s) then record_result (r (harvest_i s)) s else s)"
  "phase s = Stopping \<Longrightarrow> thread_step r s =
     (case pending s of
        [] \<Rightarrow> s\<lparr>phase := Exited\<rparr>
      | j # rest \<Rightarrow> s\<lparr>pending := rest, cancelled := cancelled s @ [j]\<rparr>)"
  "phase s = Exited \<Longrightarrow> thread_step r s =
     (if pending s = [] \<and> running s = [] then s\<lparr>phase := Joined\<rparr> else s)"
  "phase s = Joined \<Longrightarrow> thread_step r s = s"
  "phase s = Finished \<Longrightarrow> thread_step r s = s"
  by (simp_all add: thread_step_def)

lemma record_result_fields:
  "pending (record_result res s) = pending s"
  "running (record_result res s) = running s"
  "finished (record_result res s) = finished s"
  "cancelled (record_result res s) = cancelled s"
  "total_files (record_result res s) = total_files s"
  "harvest_i (record_result res s) = Suc (harvest_i s)"
  "phase (record_result res s) = Harvesting"
  "summary (record_result res s) = summary s"
  "stop_requested (ui (record_result res s)) = stop_requested (ui s)"
  "conversion_running (ui (record_result res s)) = conversion_running (ui s)"
  by (auto simp: record_result_def Let_def update_progress_def split: sum.splits)

lemma record_result_counts:
  "success_count (record_result res s) + error_count (record_result res s) =
     Suc (success_count s + error_count s)"
  by (auto simp: record_result_def Let_def split: sum.splits)

lemma inv_lists_thread: "inv_lists s \<Longrightarrow> inv_lists (thread_step r s)"
proof (cases "phase s")
  case Harvesting
  assume "inv_lists s"
  then show ?thesis
    by (simp add: thread_step_phase(1) [OF Harvesting] inv_lists_def)
next
  case Awaiting
  assume "inv_lists s"
  then show ?thesis
    by (simp add: thread_step_phase(2) [OF Awaiting] inv_lists_def record_result_fields
          less_Suc_eq)
next
  case Stopping
  assume i: "inv_lists s"
  show ?thesis
  proof (cases "pending s")
    case Nil
    with i show ?thesis
      by (simp add: thread_step_phase(3) [OF Stopping] inv_lists_def)
  next
    case (Cons j rest)
    from i have d: "distinct (j # rest @ running s @ finished s @ cancelled s)"
      and e: "set (j # rest @ running s @ finished s @ cancelled s) = {0..<total_files s}"
      and h: "\<forall>k<harvest_i s. k \<in> set (finished s)"
      by (simp_all add: inv_lists_def Cons)
    from d have d': "distinct (rest @ running s @ finished s @ cancelled s @ [j])"
      by auto
    from e have e': "set (rest @ running s @ finished s @ cancelled s @ [j]) =
        {0..<total_files s}"
      by auto
    from d' e' h show ?thesis
      by (simp add: thread_step_phase(3) [OF Stopping] Cons inv_lists_def)
  qed
next
  case Exited
  assume "inv_lists s"
  then show ?thesis
    by (auto simp: thread_step_phase(4) [OF Exited] inv_lists_def)
next
  case Joined
  assume "inv_lists s"
  then show ?thesis by (simp add: thread_step_phase(5) [OF Joined])
next
  case Finished
  assume "inv_lists s"
  then show ?thesis by (simp add: thread_step_phase(6) [OF Finished])
qed

lemma inv_lists_step: "inv_lists s \<Longrightarrow> inv_lists (step r ev s)"
proof (cases ev)
  case Worker_start
  assume "inv_lists s"
  then show ?thesis
    by (auto simp: inv_lists_def step_def Worker_start split: list.splits)
next
  case (Worker_finish j)
  assume "inv_lists s"
  then show ?thesis
    by (auto simp: inv_lists_def step_def Worker_finish)
next
  case Cancel
  assume "inv_lists s"
  then show ?thesis by (simp add: inv_lists_def step_def Cancel)
next
  case Thread_step
  assume "inv_lists s"
  then show ?thesis by (simp add: step_def Thread_step inv_lists_thread)
next
  case Complete
  assume "inv_lists s"
  then show ?thesis by (simp add: inv_lists_def step_def Complete)
qed

lemma inv_stop_thread: "inv_count s \<Longrightarrow> inv_stop s \<Longrightarrow> inv_stop (thread_step r s)"
proof (cases "phase s")
  case Harvesting
  assume "inv_count s" "inv_stop s"
  then show ?thesis
    by (simp add: thread_step_phase(1) [OF Harvesting] inv_stop_def stopped_by_cancel_def
          Harvesting)
next
  case Awaiting
  assume "inv_count s" "inv_stop s"
  then show ?thesis
    by (simp add: thread_step_phase(2) [OF Awaiting] inv_stop_def stopped_by_cancel_def
          Awaiting record_result_fields)
next
  case Stopping
  assume c: "inv_count s" and i: "inv_stop s"
  from c have f: "stop_requested (ui s)"
    by (simp add: inv_count_def Stopping)
  show ?thesis
  proof (cases "pending s")
    case Nil
    with f show ?thesis
      by (simp add: thread_step_phase(3) [OF Stopping] inv_stop_def stopped_by_cancel_def)
  next
    case (Cons j rest)
    then show ?thesis
      by (simp add: thread_step_phase(3) [OF Stopping] inv_stop_def stopped_by_cancel_def
            Stopping)
  qed
next
  case Exited
  assume "inv_count s" "inv_stop s"
  then show ?thesis
    by (simp add: thread_step_phase(4) [OF Exited] inv_stop_def stopped_by_cancel_def Exited)
next
  case Joined
  assume "inv_count s" "inv_stop s"
  then show ?thesis by (simp add: thread_step_phase(5) [OF Joined])
next
  case Finished
  assume "inv_count s" "inv_stop s"
  then show ?thesis by (simp add: thread_step_phase(6) [OF Finished])
qed

lemma inv_stop_step: "inv_count s \<Longrightarrow> inv_stop s \<Longrightarrow> inv_stop (step r ev s)"
proof (cases ev)
  case Worker_start
  assume "inv_count s" "inv_stop s"
  then show ?thesis
    by (cases "pending s")
       (auto simp: inv_stop_def stopped_by_cancel_def step_def Worker_start)
next
  case (Worker_finish j)
  assume "inv_count s" and i: "inv_stop s"
  show ?thesis
  proof (cases "j \<in> set (running s)")
    case True
    then have "running s \<noteq> []" by auto
    with i True show ?thesis
      by (simp add: inv_stop_def stopped_by_cancel_def step_def Worker_finish)
  next
    case False
    with i show ?thesis by (simp add: step_def Worker_finish)
  qed
next
  case Cancel
  assume "inv_count s" "inv_stop s"
  then show ?thesis
    by (simp add: inv_stop_def stopped_by_cancel_def step_def Cancel ui_simps)
next
  case Thread_step
  assume "inv_count s" "inv_stop s"
  then show ?thesis by (simp add: step_def Thread_step inv_stop_thread)
next
  case Complete
  assume "inv_count s" "inv_stop s"
  then show ?thesis
    by (simp add: inv_stop_def stopped_by_cancel_def step_def Complete ui_simps)
qed

lemma inv_final_step: "inv_final s \<Longrightarrow> inv_final (step r ev s)"
  by (cases ev)
     (auto simp: inv_final_def step_def thread_step_def record_result_def ui_simps Let_def
           cancel_conversion_idle
           split: list.splits phase.splits sum.splits option.splits)

lemma sched_inv_step: "sched_inv s \<Longrightarrow> sched_inv (step r ev s)"
  by (simp add: sched_inv_def inv_count_step inv_progress_step inv_lists_step inv_stop_step
        inv_final_step)

lemma sched_inv_run: "sched_inv s \<Longrightarrow> sched_inv (run r evs s)"
  by (induction evs arbitrary: s) (simp_all add: sched_inv_step)

lemma sched_inv_start: "conversion_running a \<Longrightarrow> sched_inv (start_thread a)"
  by (simp add: sched_inv_def inv_count_def inv_progress_def inv_lists_def inv_stop_def
        inv_final_def start_thread_def stopped_by_cancel_def)

lemma sched_inv_reach: "conversion_running a \<Longrightarrow> sched_inv (run r evs (start_thread a))"
  by (simp add: sched_inv_run sched_inv_start)


lemma length_filter_below:
  "distinct xs \<Longrightarrow> \<forall>j<i. j \<in> set xs \<Longrightarrow> length (filter (\<lambda>j. j < i) xs) = i"
proof -
  assume d: "distinct xs" and a: "\<forall>j<i. j \<in> set xs"
  have "set (filter (\<lambda>j. j < i) xs) = {0..<i}"
    using a by auto
  moreover have "distinct (filter (\<lambda>j. j < i) xs)"
    using d by simp
  ultimately have "length (filter (\<lambda>j. j < i) xs) = card {0..<i}"
    by (metis distinct_card)
  then show ?thesis by simp
qed

lemma length_filter_split:
  "length (filter (\<lambda>j. j < i) xs) + length (filter (\<lambda>j. (i::nat) \<le> j) xs) = length xs"
proof -
  have "(\<lambda>j. i \<le> j) = (\<lambda>j. \<not> j < i)" by auto
  then show ?thesis
    using sum_length_filter_compl [of "\<lambda>j. j < i" xs] by simp
qed

lemma total_files_thread: "total_files (thread_step r s) = total_files s"
  by (cases "phase s")
     (simp_all add: thread_step_phase record_result_fields split: list.splits)

lemma total_files_step: "total_files (step r ev s) = total_files s"
  by (cases ev) (simp_all add: step_def total_files_thread split: list.splits)

lemma total_files_run: "total_files (run r evs s) = total_files s"
  by (induction evs arbitrary: s) (simp_all add: total_files_step)

lemma final_accounting:
  assumes "sched_inv s" and "summary s = Some (t, sc, ec, c)"
  shows "t = total_files s \<and> sc + ec = harvest_i s \<and>
     sc + ec + length (cancelled s) + length (filter (\<lambda>j. harvest_i s \<le> j) (finished s)) =
       total_files s"
proof -
  from assms have f: "phase s = Finished" "t = total_files s" "sc = success_count s"
      "ec = error_count s"
    by (simp_all add: sched_inv_def inv_final_def)
  from assms(1) f(1) have e: "pending s = []" "running s = []"
    by (simp_all add: sched_inv_def inv_stop_def)
  from assms(1) have cnt: "success_count s + error_count s = harvest_i s"
    by (simp add: sched_inv_def inv_count_def)
  from assms(1) e have d: "distinct (finished s @ cancelled s)"
    and st: "set (finished s @ cancelled s) = {0..<total_files s}"
    and h: "\<forall>j<harvest_i s. j \<in> set (finished s)"
    by (simp_all add: sched_inv_def inv_lists_def)
  from d st have "length (finished s @ cancelled s) = card {0..<total_files s}"
    by (metis distinct_card)
  then have len: "length (finished s) + length (cancelled s) = total_files s"
    by simp
  from d have "distinct (finished s)" by simp
  then have below: "length (filter (\<lambda>j. j < harvest_i s) (finished s)) = harvest_i s"
    using h by (rule length_filter_below)
  from length_filter_split [of "harvest_i s" "finished s"] below len cnt f
  show ?thesis by simp
qed

lemma progress_points:
  assumes "sched_inv s"
  shows "list_all (\<lambda>(c, t, sc, ec). c = sc + ec \<and> c \<le> t) (progress s)"
  using assms
  by (auto simp: sched_inv_def inv_progress_def list_all_iff)

lemma uncancelled_reads_all:
  assumes "sched_inv s" and "summary s = Some (t, sc, ec, c)" and "\<not> c"
  shows "harvest_i s = total_files s \<and> cancelled s = [] \<and>
     filter (\<lambda>j. harvest_i s \<le> j) (finished s) = []"
proof -
  from assms(1,2) have f: "phase s = Finished" "c = stop_requested (ui s)"
    by (simp_all add: sched_inv_def inv_final_def)
  from assms(1) have le: "harvest_i s \<le> total_files s"
    by (simp add: sched_inv_def inv_count_def)
  have "\<not> harvest_i s < total_files s"
  proof
    assume "harvest_i s < total_files s"
    with f(1) have "stopped_by_cancel s"
      by (simp add: stopped_by_cancel_def)
    with assms(1) have "stop_requested (ui s)"
      by (simp add: sched_inv_def inv_stop_def)
    with f(2) assms(3) show False by simp
  qed
  with le have i: "harvest_i s = total_files s" by simp
  from assms(1) have d: "distinct (finished s @ cancelled s)"
    and st: "set (cancelled s) \<subseteq> {0..<total_files s}"
    and sf: "set (finished s) \<subseteq> {0..<total_files s}"
    and h: "\<forall>j<harvest_i s. j \<in> set (finished s)"
    by (auto simp: sched_inv_def inv_lists_def)
  have c: "cancelled s = []"
  proof (cases "cancelled s")
    case Nil
    then show ?thesis .
  next
    case (Cons x xs)
    then have x: "x \<in> set (cancelled s)" by simp
    with st have "x < total_files s" by auto
    with h i have "x \<in> set (finished s)" by simp
    with d x show ?thesis by auto
  qed
  from sf i have "filter (\<lambda>j. harvest_i s \<le> j) (finished s) = []"
    by (auto simp: filter_empty_conv)
  with i c show ?thesis by simp
qed

text \<open>
  Claim C6, amended. In every run, whatever the order of the events, at each call
  of \<open>update_progress\<close> the completed count equals succeeded plus failed and is at
  most the total. When \<open>conversion_complete\<close> has run, succeeded plus failed, plus
  the futures cancelled before they started, plus the requests that were converted
  but whose results the loop never read, is the number of requests; and the last two
  terms are zero unless the run is reported as cancelled: a run that is not
  cancelled counts every request as succeeded or failed.
\<close>

theorem batch_counters:
  "conversion_running a \<longrightarrow>
   list_all (\<lambda>(c, t, sc, ec). c = sc + ec \<and> c \<le> t) (progress (run r evs (start_thread a))) \<and>
   (\<forall>t sc ec c. summary (run r evs (start_thread a)) = Some (t, sc, ec, c) \<longrightarrow>
      t = length (file_list a) \<and>
      sc + ec + length (cancelled (run r evs (start_thread a))) +
        length (filter (\<lambda>j. harvest_i (run r evs (start_thread a)) \<le> j)
                  (finished (run r evs (start_thread a)))) = length (file_list a) \<and>
      (\<not> c \<longrightarrow>
         sc + ec = length (file_list a) \<and>
         cancelled (run r evs (start_thread a)) = [] \<and>
         filter (\<lambda>j. harvest_i (run r evs (start_thread a)) \<le> j)
           (finished (run r evs (start_thread a))) = []))"
proof (intro impI conjI allI)
  assume a: "conversion_running a"
  then have i: "sched_inv (run r evs (start_thread a))"
    by (rule sched_inv_reach)
  from i show "list_all (\<lambda>(c, t, sc, ec). c = sc + ec \<and> c \<le> t)
      (progress (run r evs (start_thread a)))"
    by (rule progress_points)
  have n: "total_files (run r evs (start_thread a)) = length (file_list a)"
    by (simp add: total_files_run start_thread_def)
  fix t sc ec c
  assume s: "summary (run r evs (start_thread a)) = Some (t, sc, ec, c)"
  from final_accounting [OF i s] n
  show "t = length (file_list a)" by simp
  from final_accounting [OF i s] n
  show "sc + ec + length (cancelled (run r evs (start_thread a))) +
        length (filter (\<lambda>j. harvest_i (run r evs (start_thread a)) \<le> j)
                  (finished (run r evs (start_thread a)))) = length (file_list a)"
    by simp
  assume nc: "\<not> c"
  note u = uncancelled_reads_all [OF i s nc]
  from u final_accounting [OF i s] n show "sc + ec = length (file_list a)" by simp
  from u show "cancelled (run r evs (start_thread a)) = []" by simp
  from u show "filter (\<lambda>j. harvest_i (run r evs (start_thread a)) \<le> j)
           (finished (run r evs (start_thread a))) = []" by blast
qed

theorem batch_counters_witness:
  "conversion_running running_app \<and>
   progress (run example_results natural_events (start_thread running_app)) =
     [(1, 2, 0, 1), (2, 2, 1, 1)] \<and>
   summary (run example_results natural_events (start_thread running_app)) =
     Some (2, 1, 1, False) \<and>
   (1::nat) + 1 = length (file_list running_app) \<and>
   cancelled (run example_results natural_events (start_thread running_app)) = [] \<and>
   filter (\<lambda>j. harvest_i (run example_results natural_events (start_thread running_app)) \<le> j)
     (finished (run example_results natural_events (start_thread running_app))) = []"
proof -
  have c: "conversion_running running_app"
    by (simp add: running_app_def)
  have p: "progress (run example_results natural_events (start_thread running_app)) =
     [(1, 2, 0, 1), (2, 2, 1, 1)]"
    by code_simp
  have s: "summary (run example_results natural_events (start_thread running_app)) =
     Some (2, 1, 1, False)"
    by code_simp
  from batch_counters [of running_app example_results natural_events] c s
  have "(1::nat) + 1 = length (file_list running_app) \<and>
   cancelled (run example_results natural_events (start_thread running_app)) = [] \<and>
   filter (\<lambda>j. harvest_i (run example_results natural_events (start_thread running_app)) \<le> j)
     (finished (run example_results natural_events (start_thread running_app))) = []"
    by blast
  with c p s show ?thesis by blast
qed

text \<open>
  Claim C6 as stated fails when the flag is observed while conversions are under
  way: they finish and write their files, the loop never reads their results, and no
  future was cancelled, so succeeded, failed and skipped add up to 0 of 2.
\<close>

theorem unread_results_not_counted:
  "summary (run example_results late_cancel_events (start_thread running_app)) =
     Some (2, 0, 0, True) \<and>
   cancelled (run example_results late_cancel_events (start_thread running_app)) = [] \<and>
   finished (run example_results late_cancel_events (start_thread running_app)) = [0, 1] \<and>
   length (file_list running_app) = 2"
  by code_simp

lemma frozen_thread:
  "phase s \<noteq> Harvesting \<Longrightarrow> phase s \<noteq> Awaiting \<Longrightarrow>
   phase (thread_step r s) \<noteq> Harvesting \<and> phase (thread_step r s) \<noteq> Awaiting \<and>
   success_count (thread_step r s) = success_count s \<and>
   error_count (thread_step r s) = error_count s \<and>
   harvest_i (thread_step r s) = harvest_i s"
  by (cases "phase s") (simp_all add: thread_step_phase split: list.splits)

lemma frozen_step:
  "phase s \<noteq> Harvesting \<Longrightarrow> phase s \<noteq> Awaiting \<Longrightarrow>
   phase (step r ev s) \<noteq> Harvesting \<and> phase (step r ev s) \<noteq> Awaiting \<and>
   success_count (step r ev s) = success_count s \<and>
   error_count (step r ev s) = error_count s \<and>
   harvest_i (step r ev s) = harvest_i s"
  by (cases ev) (simp_all add: step_def frozen_thread split: list.splits)

lemma frozen_run:
  "phase s \<noteq> Harvesting \<Longrightarrow> phase s \<noteq> Awaiting \<Longrightarrow>
   success_count (run r evs s) = success_count s \<and>
   error_count (run r evs s) = error_count s \<and>
   harvest_i (run r evs s) = harvest_i s"
proof (induction evs arbitrary: s)
  case Nil
  then show ?case by simp
next
  case (Cons ev evs)
  from frozen_step [OF Cons.prems, of r ev] Cons.IH [of "step r ev s"]
  show ?case by simp
qed

lemma flag_thread: "stop_requested (ui (thread_step r s)) = stop_requested (ui s)"
  by (cases "phase s") (simp_all add: thread_step_phase record_result_fields split: list.splits)

lemma flag_step: "stop_requested (ui s) \<Longrightarrow> stop_requested (ui (step r ev s))"
  by (cases ev) (simp_all add: step_def flag_thread ui_simps split: list.splits)

lemma flag_run: "stop_requested (ui s) \<Longrightarrow> stop_requested (ui (run r evs s))"
  by (induction evs arbitrary: s) (simp_all add: flag_step)

lemma nothing_started:
  assumes "sched_inv s" and "started s = {}"
  shows "harvest_i s = 0 \<and> success_count s = 0"
proof -
  from assms(2) have f: "finished s = []"
    by (simp add: started_def)
  from assms(1) have "\<forall>j<harvest_i s. j \<in> set (finished s)"
    by (simp add: sched_inv_def inv_lists_def)
  with f have i: "harvest_i s = 0"
    by (cases "harvest_i s") auto
  from assms(1) have "success_count s + error_count s = harvest_i s"
    by (simp add: sched_inv_def inv_count_def)
  with i show ?thesis by simp
qed

lemma observed_at_start:
  assumes "sched_inv s" and "phase s = Harvesting" and "stop_requested (ui s)"
    and "started s = {}"
    and "summary (run r (Thread_step # post) s) = Some (t, sc, ec, c)"
  shows "sc = 0 \<and> c"
proof -
  let ?s1 = "step r Thread_step s"
  from nothing_started [OF assms(1,4)] have z: "success_count s = 0" by simp
  have p: "phase ?s1 \<noteq> Harvesting" "phase ?s1 \<noteq> Awaiting"
    and z1: "success_count ?s1 = 0" and f1: "stop_requested (ui ?s1)"
    using assms(2,3) z by (simp_all add: step_def thread_step_phase(1))
  from frozen_run [OF p, of r post] z1
  have zf: "success_count (run r post ?s1) = 0" by simp
  from flag_run [OF f1, of r post]
  have ff: "stop_requested (ui (run r post ?s1))" .
  from assms(1) have "sched_inv (run r (Thread_step # post) s)"
    by (rule sched_inv_run)
  with assms(5) have "sc = success_count (run r (Thread_step # post) s) \<and>
      c = stop_requested (ui (run r (Thread_step # post) s))"
    by (simp add: sched_inv_def inv_final_def)
  with zf ff show ?thesis by simp
qed

lemma started_thread: "started (thread_step r s) = started s"
  by (cases "phase s")
     (simp_all add: thread_step_phase record_result_fields started_def split: list.splits)

lemma insert_remove1: "j \<in> set xs \<Longrightarrow> insert j (set (remove1 j xs)) = set xs"
  by (induction xs) auto

lemma started_worker_finish: "started (step r (Worker_finish j) s) = started s"
  by (auto simp: step_def started_def insert_remove1 Un_commute insert_absorb
        dest: notin_set_remove1)

lemma after_stop_step:
  assumes "sched_inv s" and "stopped_by_cancel s"
  shows "stopped_by_cancel (step r ev s) \<and> pending (step r ev s) = [] \<and>
     started (step r ev s) = started s \<and> cancelled (step r ev s) = cancelled s \<and>
     success_count (step r ev s) = success_count s \<and>
     error_count (step r ev s) = error_count s"
proof -
  from assms have e: "pending s = []"
    by (simp add: sched_inv_def inv_stop_def)
  from assms(2) have h: "harvest_i s < total_files s"
    and ph: "phase s = Exited \<or> phase s = Joined \<or> phase s = Finished"
    by (simp_all add: stopped_by_cancel_def)
  show ?thesis
  proof (cases ev)
    case Worker_start
    with e assms(2) show ?thesis by (simp add: step_def)
  next
    case (Worker_finish j)
    with e assms(2) started_worker_finish [of r j s] show ?thesis
      by (simp add: step_def stopped_by_cancel_def)
  next
    case Cancel
    with e assms(2) show ?thesis
      by (simp add: step_def stopped_by_cancel_def started_def)
  next
    case Thread_step
    from ph e h show ?thesis
      by (elim disjE)
         (simp_all add: step_def Thread_step thread_step_phase stopped_by_cancel_def
            started_def)
  next
    case Complete
    with e assms(2) show ?thesis
      by (auto simp: step_def stopped_by_cancel_def started_def)
  qed
qed

lemma after_stop_run:
  "sched_inv s \<Longrightarrow> stopped_by_cancel s \<Longrightarrow>
   pending (run r evs s) = [] \<and> started (run r evs s) = started s \<and>
   cancelled (run r evs s) = cancelled s \<and>
   success_count (run r evs s) = success_count s \<and>
   error_count (run r evs s) = error_count s"
proof (induction evs arbitrary: s)
  case Nil
  then show ?case by (simp add: sched_inv_def inv_stop_def)
next
  case (Cons ev evs)
  note st = after_stop_step [OF Cons.prems, of r ev]
  from Cons.prems(1) have "sched_inv (step r ev s)" by (rule sched_inv_step)
  from Cons.IH [OF this] st show ?case by simp
qed

lemma cancelled_never_started:
  "sched_inv s \<Longrightarrow> set (cancelled s) \<inter> started s = {}"
  by (auto simp: sched_inv_def inv_lists_def started_def)

text \<open>
  Claim C5, amended. If the flag is set and the loop observes it while no worker has
  started a request, the summary that \<open>conversion_complete\<close> receives has zero
  succeeded and the run is reported as cancelled. Once the loop has left through the
  \<open>break\<close>, that is after the shutdown that follows the observation has emptied the
  queue, no further request is ever started; the cancelled requests are never
  started and the two counters do not change any more.
\<close>

theorem cancellation_stops_dispatch:
  "conversion_running a \<longrightarrow>
   (phase (run r pre (start_thread a)) = Harvesting \<and>
    stop_requested (ui (run r pre (start_thread a))) \<and>
    started (run r pre (start_thread a)) = {} \<longrightarrow>
      (\<forall>t sc ec c.
         summary (run r (pre @ Thread_step # post) (start_thread a)) = Some (t, sc, ec, c) \<longrightarrow>
         sc = 0 \<and> c)) \<and>
   (stopped_by_cancel (run r pre (start_thread a)) \<longrightarrow>
      pending (run r (pre @ post) (start_thread a)) = [] \<and>
      started (run r (pre @ post) (start_thread a)) = started (run r pre (start_thread a)) \<and>
      cancelled (run r (pre @ post) (start_thread a)) =
        cancelled (run r pre (start_thread a)) \<and>
      set (cancelled (run r (pre @ post) (start_thread a))) \<inter>
        started (run r (pre @ post) (start_thread a)) = {} \<and>
      success_count (run r (pre @ post) (start_thread a)) =
        success_count (run r pre (start_thread a)) \<and>
      error_count (run r (pre @ post) (start_thread a)) =
        error_count (run r pre (start_thread a)))"
proof (intro impI conjI allI)
  assume a: "conversion_running a"
  let ?s = "run r pre (start_thread a)"
  from a have i: "sched_inv ?s" by (rule sched_inv_reach)
  {
    fix t sc ec c
    assume o: "phase ?s = Harvesting \<and> stop_requested (ui ?s) \<and> started ?s = {}"
      and s: "summary (run r (pre @ Thread_step # post) (start_thread a)) = Some (t, sc, ec, c)"
    from s have "summary (run r (Thread_step # post) ?s) = Some (t, sc, ec, c)"
      by (simp only: run_append)
    with i o have "sc = 0 \<and> c"
      using observed_at_start [of ?s r post t sc ec c] by blast
    then show "sc = 0" and "c" by simp_all
  }
  assume st: "stopped_by_cancel ?s"
  note as = after_stop_run [OF i st, of r post]
  from as show "pending (run r (pre @ post) (start_thread a)) = []"
    by (simp add: run_append)
  from as show "started (run r (pre @ post) (start_thread a)) = started ?s"
    by (simp add: run_append)
  from as show "cancelled (run r (pre @ post) (start_thread a)) = cancelled ?s"
    by (simp add: run_append)
  from a have "sched_inv (run r (pre @ post) (start_thread a))" by (rule sched_inv_reach)
  then show "set (cancelled (run r (pre @ post) (start_thread a))) \<inter>
        started (run r (pre @ post) (start_thread a)) = {}"
    by (rule cancelled_never_started)
  from as show "success_count (run r (pre @ post) (start_thread a)) = success_count ?s"
    by (simp add: run_append)
  from as show "error_count (run r (pre @ post) (start_thread a)) = error_count ?s"
    by (simp add: run_append)
qed

theorem cancellation_stops_dispatch_witness:
  "conversion_running running_app \<and>
   phase (run example_results [Cancel] (start_thread running_app)) = Harvesting \<and>
   stop_requested (ui (run example_results [Cancel] (start_thread running_app))) \<and>
   started (run example_results [Cancel] (start_thread running_app)) = {} \<and>
   summary (run example_results (early_cancel_events @ [Thread_step, Complete])
              (start_thread running_app)) = Some (2, 0, 0, True) \<and>
   stopped_by_cancel (run example_results early_cancel_events (start_thread running_app)) \<and>
   cancelled (run example_results early_cancel_events (start_thread running_app)) = [0, 1] \<and>
   pending (run example_results (early_cancel_events @ [Worker_start, Thread_step, Complete])
              (start_thread running_app)) = [] \<and>
   started (run example_results (early_cancel_events @ [Worker_start, Thread_step, Complete])
              (start_thread running_app)) = {} \<and>
   success_count (run example_results
                    (early_cancel_events @ [Worker_start, Thread_step, Complete])
                    (start_thread running_app)) = 0"
proof -
  let ?s0 = "start_thread running_app"
  have c: "conversion_running running_app"
    by (simp add: running_app_def)
  have p: "phase (run example_results [Cancel] ?s0) = Harvesting"
    by code_simp
  have f: "stop_requested (ui (run example_results [Cancel] ?s0))"
    by code_simp
  have n: "started (run example_results [Cancel] ?s0) = {}"
    by code_simp
  have e: "early_cancel_events @ [Thread_step, Complete] =
      [Cancel] @ Thread_step # [Thread_step, Thread_step, Thread_step, Thread_step, Complete]"
    by (simp add: early_cancel_events_def)
  have s: "summary (run example_results (early_cancel_events @ [Thread_step, Complete]) ?s0) =
      Some (2, 0, 0, True)"
    by code_simp
  have st: "stopped_by_cancel (run example_results early_cancel_events ?s0)"
    by code_simp
  have cn: "cancelled (run example_results early_cancel_events ?s0) = [0, 1]"
    by code_simp
  have n2: "started (run example_results early_cancel_events ?s0) = {}"
    by code_simp
  have z: "success_count (run example_results early_cancel_events ?s0) = 0"
    by code_simp
  from cancellation_stops_dispatch
    [of running_app example_results early_cancel_events "[Worker_start, Thread_step, Complete]"]
    c st n2 z
  have b: "pending (run example_results
                (early_cancel_events @ [Worker_start, Thread_step, Complete]) ?s0) = [] \<and>
      started (run example_results
                (early_cancel_events @ [Worker_start, Thread_step, Complete]) ?s0) = {} \<and>
      success_count (run example_results
                (early_cancel_events @ [Worker_start, Thread_step, Complete]) ?s0) = 0"
    by simp
  from cancellation_stops_dispatch
    [of running_app example_results "[Cancel]"
        "[Thread_step, Thread_step, Thread_step, Thread_step, Complete]"]
    c p f n s
  have "(0::nat) = 0 \<and> True" by simp
  with c p f n s st cn b show ?thesis by simp
qed

text \<open>
  Claim C5 as stated fails between the observation of the flag (line 1179) and the
  end of the shutdown (line 1180): with the flag observed and nothing started, a
  worker still takes the first request from the queue and converts it.
\<close>

theorem dispatch_after_observation:
  "phase (run example_results [Cancel, Thread_step] (start_thread running_app)) = Stopping \<and>
   stop_requested (ui (run example_results [Cancel, Thread_step] (start_thread running_app))) \<and>
   running (run example_results [Cancel, Thread_step] (start_thread running_app)) = [] \<and>
   finished (run example_results [Cancel, Thread_step] (start_thread running_app)) = [] \<and>
   running (run example_results [Cancel, Thread_step, Worker_start]
              (start_thread running_app)) = [0] \<and>
   finished (run example_results
               [Cancel, Thread_step, Worker_start, Thread_step, Thread_step, Worker_finish 0,
                Thread_step, Complete] (start_thread running_app)) = [0] \<and>
   summary (run example_results
              [Cancel, Thread_step, Worker_start, Thread_step, Thread_step, Worker_finish 0,
               Thread_step, Complete] (start_thread running_app)) = Some (2, 0, 0, True)"
  by code_simp

end
